theory Spec2Isabelle
  imports Main "HOL-Library.Sublist" "HOL-Library.Char_ord" "HOL-Library.List_Lexorder"
    "HOL-Library.Product_Lexorder"
begin

section \<open>Strings: the JavaScript and SQLite text operations used by the graph manager\<close>

text \<open>
  Text is a \<open>string\<close>, the list of the bytes of its UTF-8 encoding. SQLite's
  \<open>LOWER\<close> and \<open>LIKE\<close> fold the ASCII letters only; JavaScript's
  \<open>toLowerCase\<close> folds every cased code point and is a parameter of the lexical
  search. Observations are stored in one TEXT column, joined with the delimiter
  \<open>|||\<close>.
\<close>

definition delim :: string where
  "delim = ''|||''"

text \<open>\<open>Array.prototype.join(sep)\<close>.\<close>

fun joinWith :: "string \<Rightarrow> string list \<Rightarrow> string" where
  "joinWith sep [] = []"
| "joinWith sep [x] = x"
| "joinWith sep (x # y # ys) = x @ sep @ joinWith sep (y # ys)"

text \<open>
  \<open>String.prototype.split("|||")\<close>: scan from the left, cut at every leftmost
  non-overlapping occurrence of the delimiter; \<open>cur\<close> is the piece read so far.
  The empty string splits into one empty piece.
\<close>

fun splitDelim :: "string \<Rightarrow> string \<Rightarrow> string list" where
  "splitDelim cur [] = [cur]"
| "splitDelim cur (c # cs) =
     (if take 3 (c # cs) = delim then cur # splitDelim [] (drop 2 cs)
      else splitDelim (cur @ [c]) cs)"

text \<open>\<open>observations.join("|||")\<close> on write.\<close>

definition encodeObservations :: "string list \<Rightarrow> string" where
  "encodeObservations obs = joinWith delim obs"

text \<open>\<open>e.observations ? e.observations.split("|||") : []\<close> on read: the empty
  string is falsy.\<close>

definition decodeObservations :: "string \<Rightarrow> string list" where
  "decodeObservations s = (if s = [] then [] else splitDelim [] s)"





section \<open>Data model\<close>

text \<open>The interfaces \<open>Entity\<close>, \<open>Relation\<close> and \<open>KnowledgeGraph\<close>. The fields
  \<open>from\<close> and \<open>to\<close> of a relation are written \<open>rel_from\<close> and \<open>rel_to\<close>.\<close>

record entity =
  name :: string
  entityType :: string
  observations :: "string list"

record relation =
  rel_from :: string
  rel_to :: string
  relationType :: string

record knowledgeGraph =
  entities :: "entity list"
  relations :: "relation list"

text \<open>
  The SQLite tables. A row of \<open>entities\<close> has the AUTOINCREMENT key \<open>id\<close>, the
  UNIQUE \<open>name\<close>, the type and the encoded observations (the \<open>embedding\<close> BLOB
  column of the vector-enabled manager is read by no operation and is left out; the
  parameter bound to it on insert is not, see \<open>insertEntity\<close>). A row of \<open>relations\<close> is the UNIQUE triple. \<open>entities_vec\<close> maps an
  entity id to its embedding. Each table is the list of its rows in rowid order.
\<close>

record entityRow =
  row_id :: nat
  row_name :: string
  row_entityType :: string
  row_observations :: string

record relationRow =
  from_entity :: string
  to_entity :: string
  row_relationType :: string

record 'v db =
  entities_tbl :: "entityRow list"
  relations_tbl :: "relationRow list"
  entities_vec :: "(nat \<times> 'v) list"
  next_id :: nat

definition emptyDb :: "'v db" where
  "emptyDb = \<lparr>entities_tbl = [], relations_tbl = [], entities_vec = [], next_id = 1\<rparr>"

text \<open>
  What an operation can raise: the missing entity of \<open>addObservations\<close>, a failed
  embedding, a parameter that the SQLite driver refuses to bind, an SQL function that
  no loaded extension defines, and a LIKE pattern over the length limit.
\<close>

datatype error =
    EntityNotFound string
  | EmbeddingFailed
  | BindTypeError
  | NoSuchFunction string
  | LikePatternTooComplex

text \<open>
  The values the code binds to statement parameters. The driver (better-sqlite3) binds
  numbers, strings, bigints, buffers (typed-array views) and null; for anything else, an
  \<open>ArrayBuffer\<close> among them, \<open>run\<close>, \<open>get\<close> and \<open>all\<close> raise a TypeError
  before the statement is executed.
\<close>

datatype bound = BoundText string | BoundNumber int | BoundBuffer | BoundArrayBuffer | BoundNull

fun bindable :: "bound \<Rightarrow> bool" where
  "bindable BoundArrayBuffer = False"
| "bindable b = True"

datatype storageError = StorageError

definition emptyGraph :: knowledgeGraph where
  "emptyGraph = \<lparr>entities = [], relations = []\<rparr>"

definition rowToEntity :: "entityRow \<Rightarrow> entity" where
  "rowToEntity e =
     \<lparr>name = row_name e, entityType = row_entityType e,
      observations = decodeObservations (row_observations e)\<rparr>"

definition rowToRelation :: "relationRow \<Rightarrow> relation" where
  "rowToRelation r =
     \<lparr>rel_from = from_entity r, rel_to = to_entity r, relationType = row_relationType r\<rparr>"

definition relationToRow :: "relation \<Rightarrow> relationRow" where
  "relationToRow r =
     \<lparr>from_entity = rel_from r, to_entity = rel_to r, row_relationType = relationType r\<rparr>"

section \<open>Reading the graph\<close>

text \<open>
  \<open>loadGraph\<close>: the two \<open>SELECT *\<close> scans run inside one \<open>try\<close>; each either
  raises or yields its rows. Any raise is caught and the empty graph is returned.
\<close>

definition loadGraph ::
  "storageError + entityRow list \<Rightarrow> storageError + relationRow list \<Rightarrow> knowledgeGraph" where
  "loadGraph entityScan relationScan =
     (case entityScan of
        Inl err \<Rightarrow> emptyGraph
      | Inr es \<Rightarrow>
          (case relationScan of
             Inl err \<Rightarrow> emptyGraph
           | Inr rs \<Rightarrow> \<lparr>entities = map rowToEntity es, relations = map rowToRelation rs\<rparr>))"

text \<open>\<open>readGraph\<close> on a store whose scans succeed.\<close>

definition readGraph :: "'v db \<Rightarrow> knowledgeGraph" where
  "readGraph d = loadGraph (Inr (entities_tbl d)) (Inr (relations_tbl d))"

text \<open>
  Queries with \<open>IN\<close> lists and no ORDER BY. SQLite answers
  \<open>WHERE name IN (...)\<close> through the UNIQUE index on \<open>name\<close> and
  \<open>WHERE from_entity IN (...) AND to_entity IN (...)\<close> through the UNIQUE index on the
  triple, so the rows come in the order of the index (bytewise), not in rowid order.
\<close>

definition selectEntitiesNamed :: "string list \<Rightarrow> entityRow list \<Rightarrow> entityRow list" where
  "selectEntitiesNamed names tbl = sort_key row_name (filter (\<lambda>e. row_name e \<in> set names) tbl)"

definition selectRelationsAmong :: "string list \<Rightarrow> relationRow list \<Rightarrow> relationRow list" where
  "selectRelationsAmong names tbl =
     sort_key (\<lambda>r. (from_entity r, to_entity r, row_relationType r))
       (filter (\<lambda>r. from_entity r \<in> set names \<and> to_entity r \<in> set names) tbl)"

text \<open>\<open>openNodes\<close>: rows whose name is in the list, relations with both ends in it.\<close>

definition openNodes :: "'v db \<Rightarrow> string list \<Rightarrow> knowledgeGraph" where
  "openNodes d names =
     (if length names = 0 then emptyGraph
      else \<lparr>entities = map rowToEntity (selectEntitiesNamed names (entities_tbl d)),
            relations = map rowToRelation (selectRelationsAmong names (relations_tbl d))\<rparr>)"

section \<open>Creating entities and relations\<close>

text \<open>
  \<open>INSERT OR IGNORE INTO entities\<close> with the three parameters of the lexical
  manager: ignored when a row with the name exists; otherwise a row with the next id is
  appended. The result is \<open>lastInsertRowid\<close> when \<open>changes > 0\<close>.
\<close>

definition insertEntity_lexical :: "'v db \<Rightarrow> entity \<Rightarrow> nat option \<times> 'v db" where
  "insertEntity_lexical d e =
     (if name e \<in> set (map row_name (entities_tbl d)) then (None, d)
      else (Some (next_id d),
            d\<lparr>entities_tbl := entities_tbl d @
                 [\<lparr>row_id = next_id d, row_name = name e, row_entityType = entityType e,
                   row_observations = encodeObservations (observations e)\<rparr>],
              next_id := next_id d + 1\<rparr>))"

text \<open>\<open>createEntities\<close> of the lexical manager.\<close>

fun createEntities_lexical :: "'v db \<Rightarrow> entity list \<Rightarrow> entity list \<times> 'v db" where
  "createEntities_lexical d [] = ([], d)"
| "createEntities_lexical d (e # es) =
     (case insertEntity_lexical d e of
        (None, d') \<Rightarrow> createEntities_lexical d' es
      | (Some lastInsertRowid, d') \<Rightarrow>
          (case createEntities_lexical d' es of (newEntities, d'') \<Rightarrow> (e # newEntities, d'')))"

text \<open>
  The insert of the vector-enabled manager has a fourth parameter, the placeholder
  \<open>new Float32Array(768).buffer\<close>: an \<open>ArrayBuffer\<close>. The driver checks the
  parameters before it runs the statement.
\<close>

definition insertEntity :: "'v db \<Rightarrow> entity \<Rightarrow> error + (nat option \<times> 'v db)" where
  "insertEntity d e =
     (if list_all bindable
           [BoundText (name e), BoundText (entityType e),
            BoundText (encodeObservations (observations e)), BoundArrayBuffer]
      then Inr (insertEntity_lexical d e)
      else Inl BindTypeError)"

text \<open>
  \<open>createEntities\<close> of the vector-enabled manager: the loop of the lexical one
  around that insert; a raise leaves the loop and the function. After a successful
  insert it would start a detached embedding job.
\<close>

fun createEntities :: "'v db \<Rightarrow> entity list \<Rightarrow> (error + entity list) \<times> 'v db" where
  "createEntities d [] = (Inr [], d)"
| "createEntities d (e # es) =
     (case insertEntity d e of
        Inl err \<Rightarrow> (Inl err, d)
      | Inr (None, d') \<Rightarrow> createEntities d' es
      | Inr (Some lastInsertRowid, d') \<Rightarrow>
          (case createEntities d' es of
             (Inl err, d'') \<Rightarrow> (Inl err, d'')
           | (Inr newEntities, d'') \<Rightarrow> (Inr (e # newEntities), d'')))"

text \<open>
  The detached jobs, run to completion with the embedding \<open>v\<close> of the text
  \<open>name + " " + observations.join(" ")\<close>. Each first runs
  \<open>UPDATE entities SET embedding = ?\<close> with \<open>embedding.buffer\<close>, again an
  \<open>ArrayBuffer\<close>; a raise is caught and logged, and the statement on
  \<open>entities_vec\<close> after it is not reached.
\<close>

definition combinedText :: "entity \<Rightarrow> string" where
  "combinedText e = name e @ '' '' @ joinWith '' '' (observations e)"

definition embeddingJobCreate :: "'v db \<Rightarrow> nat \<Rightarrow> 'v \<Rightarrow> 'v db" where
  "embeddingJobCreate d lastInsertRowid v =
     (if \<not> list_all bindable [BoundArrayBuffer, BoundNumber (int lastInsertRowid)] then d
      else if lastInsertRowid \<in> set (map fst (entities_vec d)) then d
      else d\<lparr>entities_vec := entities_vec d @ [(lastInsertRowid, v)]\<rparr>)"

definition embeddingJobUpdate :: "'v db \<Rightarrow> nat \<Rightarrow> 'v \<Rightarrow> 'v db" where
  "embeddingJobUpdate d i v =
     (if \<not> list_all bindable [BoundArrayBuffer, BoundNumber (int i)] then d
      else d\<lparr>entities_vec := map (\<lambda>(j, w). if j = i then (j, v) else (j, w)) (entities_vec d)\<rparr>)"

text \<open>\<open>INSERT OR IGNORE INTO relations\<close> and \<open>createRelations\<close>.\<close>

definition insertRelation :: "'v db \<Rightarrow> relation \<Rightarrow> bool \<times> 'v db" where
  "insertRelation d r =
     (if relationToRow r \<in> set (relations_tbl d) then (False, d)
      else (True, d\<lparr>relations_tbl := relations_tbl d @ [relationToRow r]\<rparr>))"

fun createRelations :: "'v db \<Rightarrow> relation list \<Rightarrow> relation list \<times> 'v db" where
  "createRelations d [] = ([], d)"
| "createRelations d (r # rs) =
     (case insertRelation d r of
        (False, d') \<Rightarrow> createRelations d' rs
      | (True, d') \<Rightarrow>
          (case createRelations d' rs of (newRelations, d'') \<Rightarrow> (r # newRelations, d'')))"

section \<open>Observations\<close>

record obsInput =
  entityName :: string
  contents :: "string list"

record obsOutput =
  out_entityName :: string
  addedObservations :: "string list"

record obsDeletion =
  del_entityName :: string
  del_observations :: "string list"

text \<open>\<open>UPDATE entities SET observations = ? WHERE name = ?\<close>.\<close>

definition updateEntityObservations :: "'v db \<Rightarrow> string \<Rightarrow> string \<Rightarrow> 'v db" where
  "updateEntityObservations d text n =
     d\<lparr>entities_tbl :=
         map (\<lambda>e. if row_name e = n then e\<lparr>row_observations := text\<rparr> else e) (entities_tbl d)\<rparr>"

text \<open>
  The body of the callback that \<open>addObservations\<close> maps over its input, the same in
  both managers: look the entity up, raise when it is missing, keep the contents that
  are not among the existing observations, and write the merged list when something is
  new.
\<close>

definition addObservationsTo :: "'v db \<Rightarrow> obsInput \<Rightarrow> error + (obsOutput \<times> 'v db)" where
  "addObservationsTo d ob =
     (case find (\<lambda>e. row_name e = entityName ob) (entities_tbl d) of
        None \<Rightarrow> Inl (EntityNotFound (entityName ob))
      | Some entityRow \<Rightarrow>
          (let existingObservations = decodeObservations (row_observations entityRow);
               newObservations = filter (\<lambda>content. content \<notin> set existingObservations) (contents ob)
           in if length newObservations > 0
              then Inr (\<lparr>out_entityName = entityName ob, addedObservations = newObservations\<rparr>,
                        updateEntityObservations d
                          (encodeObservations (existingObservations @ newObservations))
                          (entityName ob))
              else Inr (\<lparr>out_entityName = entityName ob, addedObservations = newObservations\<rparr>, d)))"

text \<open>
  The lexical manager maps a plain callback: the first raise leaves \<open>map\<close>, the
  targets before it are already written and the ones after it are not visited.
  The store is returned with the error: nothing rolls it back.
\<close>

fun addObservations_lexical ::
  "'v db \<Rightarrow> obsInput list \<Rightarrow> (error + obsOutput list) \<times> 'v db" where
  "addObservations_lexical d [] = (Inr [], d)"
| "addObservations_lexical d (ob # obs) =
     (case addObservationsTo d ob of
        Inl err \<Rightarrow> (Inl err, d)
      | Inr (res, d') \<Rightarrow>
          (case addObservations_lexical d' obs of
             (Inl err, d'') \<Rightarrow> (Inl err, d'')
           | (Inr results, d'') \<Rightarrow> (Inr (res # results), d'')))"

text \<open>
  The vector-enabled manager maps an \<open>async\<close> callback with no \<open>await\<close> in
  its body and passes the promises to \<open>Promise.all\<close>: every callback runs to its end
  in input order, a raise only rejects that callback's promise, and \<open>Promise.all\<close>
  rejects with the first rejection in input order.
\<close>

fun addObservations ::
  "'v db \<Rightarrow> obsInput list \<Rightarrow> (error + obsOutput list) \<times> 'v db" where
  "addObservations d [] = (Inr [], d)"
| "addObservations d (ob # obs) =
     (case addObservationsTo d ob of
        Inl err \<Rightarrow> (Inl err, snd (addObservations d obs))
      | Inr (res, d') \<Rightarrow>
          (case addObservations d' obs of
             (Inl err, d'') \<Rightarrow> (Inl err, d'')
           | (Inr results, d'') \<Rightarrow> (Inr (res # results), d'')))"

text \<open>\<open>deleteObservations\<close>: missing entities are skipped.\<close>

definition deleteObservationsFrom :: "'v db \<Rightarrow> obsDeletion \<Rightarrow> 'v db" where
  "deleteObservationsFrom d del =
     (case find (\<lambda>e. row_name e = del_entityName del) (entities_tbl d) of
        None \<Rightarrow> d
      | Some entity \<Rightarrow>
          (let existingObservations = decodeObservations (row_observations entity);
               filteredObservations =
                 filter (\<lambda>ob. ob \<notin> set (del_observations del)) existingObservations
           in updateEntityObservations d (encodeObservations filteredObservations)
                (del_entityName del)))"

definition deleteObservations :: "'v db \<Rightarrow> obsDeletion list \<Rightarrow> 'v db" where
  "deleteObservations d deletions = foldl deleteObservationsFrom d deletions"

section \<open>Deleting entities and relations\<close>

text \<open>
  One round of the \<open>deleteEntities\<close> loop: the embedding of the entity's id when the
  entity exists, then the entity row, then every relation naming it at either end.
\<close>

definition deleteEntity :: "'v db \<Rightarrow> string \<Rightarrow> 'v db" where
  "deleteEntity d ename =
     (let d1 = (case find (\<lambda>e. row_name e = ename) (entities_tbl d) of
                  None \<Rightarrow> d
                | Some entityRow \<Rightarrow>
                    d\<lparr>entities_vec := filter (\<lambda>(i, v). i \<noteq> row_id entityRow) (entities_vec d)\<rparr>);
          d2 = d1\<lparr>entities_tbl := filter (\<lambda>e. row_name e \<noteq> ename) (entities_tbl d1)\<rparr>
      in d2\<lparr>relations_tbl :=
              filter (\<lambda>r. \<not> (from_entity r = ename \<or> to_entity r = ename))
                (relations_tbl d2)\<rparr>)"

definition deleteEntities :: "'v db \<Rightarrow> string list \<Rightarrow> 'v db" where
  "deleteEntities d entityNames = foldl deleteEntity d entityNames"

text \<open>The lexical manager has no \<open>entities_vec\<close> table and skips the first step.\<close>

definition deleteEntity_lexical :: "'v db \<Rightarrow> string \<Rightarrow> 'v db" where
  "deleteEntity_lexical d ename =
     (let d2 = d\<lparr>entities_tbl := filter (\<lambda>e. row_name e \<noteq> ename) (entities_tbl d)\<rparr>
      in d2\<lparr>relations_tbl :=
              filter (\<lambda>r. \<not> (from_entity r = ename \<or> to_entity r = ename))
                (relations_tbl d2)\<rparr>)"

definition deleteEntities_lexical :: "'v db \<Rightarrow> string list \<Rightarrow> 'v db" where
  "deleteEntities_lexical d entityNames = foldl deleteEntity_lexical d entityNames"

definition deleteRelation :: "'v db \<Rightarrow> relation \<Rightarrow> 'v db" where
  "deleteRelation d r =
     d\<lparr>relations_tbl :=
         filter (\<lambda>x. \<not> (from_entity x = rel_from r \<and> to_entity x = rel_to r
                        \<and> row_relationType x = relationType r)) (relations_tbl d)\<rparr>"

definition deleteRelations :: "'v db \<Rightarrow> relation list \<Rightarrow> 'v db" where
  "deleteRelations d rs = foldl deleteRelation d rs"

section \<open>Searching\<close>

text \<open>\<open>LIMIT k\<close>: a negative \<open>k\<close> means no limit.\<close>

definition sqlLimit :: "int \<Rightarrow> 'a list \<Rightarrow> 'a list" where
  "sqlLimit k xs = (if k < 0 then xs else take (nat k) xs)"

text \<open>
  The rows of the index query of the vector search,
  \<open>SELECT entity_id, distance FROM entities_vec WHERE vec_search(embedding, ?)
  ORDER BY distance LIMIT ?\<close>, for a predicate \<open>vec_search\<close> and a \<open>distance\<close>
  column of the vector extension.
\<close>

definition similarEntityIds ::
  "('v \<Rightarrow> 'v \<Rightarrow> bool) \<Rightarrow> ('v \<Rightarrow> 'v \<Rightarrow> 'd::linorder) \<Rightarrow> (nat \<times> 'v) list \<Rightarrow> 'v \<Rightarrow> int
     \<Rightarrow> (nat \<times> 'd) list" where
  "similarEntityIds vec_search distance tbl q topK =
     sqlLimit topK (sort_key snd
       (map (\<lambda>(i, v). (i, distance v q)) (filter (\<lambda>(i, v). vec_search v q) tbl)))"

text \<open>
  \<open>searchNodes\<close> of the vector-enabled manager. \<open>generateEmbedding\<close> raises when
  the model yields nothing. Then the index query is prepared: this raises when no loaded
  extension defines the SQL function \<open>vec_search\<close> (the parameter is \<open>None\<close>; so
  it is for the extension the manager loads, sqlite-vec). Then it is run with
  \<open>queryEmbedding.buffer\<close>, an \<open>ArrayBuffer\<close>, and \<open>topK\<close>. Only then comes the
  test for an empty result, and the entities are fetched with \<open>WHERE id IN (...)\<close>,
  in rowid order.
\<close>

definition searchNodes ::
  "(string \<Rightarrow> 'v option) \<Rightarrow> ('v \<Rightarrow> 'v \<Rightarrow> bool) option \<Rightarrow> ('v \<Rightarrow> 'v \<Rightarrow> 'd::linorder) \<Rightarrow> 'v db
     \<Rightarrow> string \<Rightarrow> int \<Rightarrow> error + knowledgeGraph" where
  "searchNodes generateEmbedding vec_search distance d query topK =
     (case generateEmbedding query of
        None \<Rightarrow> Inl EmbeddingFailed
      | Some queryEmbedding \<Rightarrow>
          (case vec_search of
             None \<Rightarrow> Inl (NoSuchFunction ''vec_search'')
           | Some matches \<Rightarrow>
               if \<not> list_all bindable [BoundArrayBuffer, BoundNumber topK] then Inl BindTypeError
               else
                 (let similar = similarEntityIds matches distance (entities_vec d)
                                  queryEmbedding topK
                  in if length similar = 0 then Inr emptyGraph
                     else
                       (let entityIds = map fst similar;
                            es = filter (\<lambda>e. row_id e \<in> set entityIds) (entities_tbl d);
                            entityNames = map row_name es;
                            rs = (if length entityNames > 0
                                  then selectRelationsAmong entityNames (relations_tbl d)
                                  else [])
                        in Inr \<lparr>entities = map rowToEntity es,
                                relations = map rowToRelation rs\<rparr>))))"




section \<open>The schema's constraints\<close>

text \<open>
  What the table declarations enforce: \<open>name\<close> is UNIQUE, \<open>id\<close> is the
  AUTOINCREMENT primary key (never reused), the relation triple is UNIQUE and
  \<open>entity_id\<close> is the primary key of \<open>entities_vec\<close>.
\<close>

definition wf_db :: "'v db \<Rightarrow> bool" where
  "wf_db d \<longleftrightarrow>
     distinct (map row_name (entities_tbl d)) \<and>
     distinct (map row_id (entities_tbl d)) \<and>
     (\<forall>e \<in> set (entities_tbl d). row_id e < next_id d) \<and>
     distinct (relations_tbl d) \<and>
     distinct (map fst (entities_vec d))"

section \<open>Predicates used to state the properties\<close>

text \<open>An \<open>addObservations\<close> target names a stored entity.\<close>

definition known :: "'v db \<Rightarrow> obsInput \<Rightarrow> bool" where
  "known d ob \<longleftrightarrow> entityName ob \<in> set (map row_name (entities_tbl d))"

text \<open>A string without the character of the delimiter; a list of such strings without
  duplicates; a store whose decoded observation lists are all of that kind.\<close>

definition delimFree :: "string \<Rightarrow> bool" where
  "delimFree s \<longleftrightarrow> CHR ''|'' \<notin> set s"

definition cleanStrings :: "string list \<Rightarrow> bool" where
  "cleanStrings xs \<longleftrightarrow> distinct xs \<and> (\<forall>x \<in> set xs. delimFree x)"

definition cleanDb :: "'v db \<Rightarrow> bool" where
  "cleanDb d \<longleftrightarrow>
     (\<forall>e \<in> set (entities_tbl d). cleanStrings (decodeObservations (row_observations e)))"

text \<open>
  Sequences of the operations that write observations, of either manager; an operation
  that raises leaves the store as the raise found it.
\<close>

datatype operation =
    CreateEntities "entity list"
  | CreateEntitiesLexical "entity list"
  | AddObservations "obsInput list"
  | AddObservationsLexical "obsInput list"
  | DeleteObservations "obsDeletion list"

fun applyOperation :: "'v db \<Rightarrow> operation \<Rightarrow> 'v db" where
  "applyOperation d (CreateEntities es) = snd (createEntities d es)"
| "applyOperation d (CreateEntitiesLexical es) = snd (createEntities_lexical d es)"
| "applyOperation d (AddObservations obs) = snd (addObservations d obs)"
| "applyOperation d (AddObservationsLexical obs) = snd (addObservations_lexical d obs)"
| "applyOperation d (DeleteObservations dels) = deleteObservations d dels"

definition runOperations :: "'v db \<Rightarrow> operation list \<Rightarrow> 'v db" where
  "runOperations d ops = foldl applyOperation d ops"

fun cleanOperation :: "operation \<Rightarrow> bool" where
  "cleanOperation (CreateEntities es) = (\<forall>e \<in> set es. cleanStrings (observations e))"
| "cleanOperation (CreateEntitiesLexical es) = (\<forall>e \<in> set es. cleanStrings (observations e))"
| "cleanOperation (AddObservations obs) = (\<forall>ob \<in> set obs. cleanStrings (contents ob))"
| "cleanOperation (AddObservationsLexical obs) = (\<forall>ob \<in> set obs. cleanStrings (contents ob))"
| "cleanOperation (DeleteObservations dels) = True"





section \<open>Example data\<close>

text \<open>The entities and the relation of the examples.\<close>

definition jane :: entity where
  "jane = \<lparr>name = ''Jane'', entityType = ''person'', observations = [''likes tea'']\<rparr>"

definition acme :: entity where
  "acme = \<lparr>name = ''Acme'', entityType = ''org'', observations = []\<rparr>"

definition worksAt :: relation where
  "worksAt = \<lparr>rel_from = ''Jane'', rel_to = ''Acme'', relationType = ''works_at''\<rparr>"

definition janeRow :: entityRow where
  "janeRow = \<lparr>row_id = 1, row_name = ''Jane'', row_entityType = ''person'',
               row_observations = ''likes tea''\<rparr>"

text \<open>A store holding Jane, Acme, the relation between them and an embedding record
  for Acme.\<close>

definition janeAcmeDb :: "nat db" where
  "janeAcmeDb =
     \<lparr>entities_tbl =
        [\<lparr>row_id = 1, row_name = ''Jane'', row_entityType = ''person'',
          row_observations = ''likes tea''\<rparr>,
         \<lparr>row_id = 2, row_name = ''Acme'', row_entityType = ''org'', row_observations = []\<rparr>],
      relations_tbl =
        [\<lparr>from_entity = ''Jane'', to_entity = ''Acme'', row_relationType = ''works_at''\<rparr>],
      entities_vec = [(2, 7)], next_id = 3\<rparr>"

text \<open>The same store after a relation to Ghost, a name of no entity, was created.\<close>

definition knowsGhost :: relation where
  "knowsGhost = \<lparr>rel_from = ''Jane'', rel_to = ''Ghost'', relationType = ''knows''\<rparr>"

definition ghostDb :: "nat db" where
  "ghostDb = snd (createRelations janeAcmeDb [knowsGhost])"

text \<open>An embedding model that maps a text to its length, with the absolute difference
  as distance.\<close>

definition lengthEmbedding :: "string \<Rightarrow> int option" where
  "lengthEmbedding text = Some (int (length text))"

definition absDistance :: "int \<Rightarrow> int \<Rightarrow> int" where
  "absDistance a b = \<bar>a - b\<bar>"

text \<open>Inputs of \<open>addObservations\<close> and \<open>deleteObservations\<close>.\<close>

definition janeCoffee :: obsInput where
  "janeCoffee = \<lparr>entityName = ''Jane'', contents = [''drinks coffee'']\<rparr>"

definition nobodyTea :: obsInput where
  "nobodyTea = \<lparr>entityName = ''Nobody'', contents = [''likes tea'']\<rparr>"

definition janeTea :: obsInput where
  "janeTea = \<lparr>entityName = ''Jane'', contents = [''likes tea'', ''drinks coffee'']\<rparr>"

definition janePiped :: obsInput where
  "janePiped = \<lparr>entityName = ''Jane'', contents = [''a|||b'']\<rparr>"

definition acmeBlank :: obsInput where
  "acmeBlank = \<lparr>entityName = ''Acme'', contents = ['''']\<rparr>"

definition acmeTwice :: obsInput where
  "acmeTwice = \<lparr>entityName = ''Acme'', contents = [''b'', ''b'']\<rparr>"

definition pairPiped :: obsInput where
  "pairPiped = \<lparr>entityName = ''Pair'', contents = [''a|||b'']\<rparr>"

definition janeForget :: obsDeletion where
  "janeForget = \<lparr>del_entityName = ''Jane'', del_observations = [''likes tea'']\<rparr>"

text \<open>Entities whose observations hold the delimiter, the empty string or a duplicate.\<close>

definition piped :: entity where
  "piped = \<lparr>name = ''Bob'', entityType = ''person'', observations = [''a|||b'']\<rparr>"

definition blank :: entity where
  "blank = \<lparr>name = ''Eve'', entityType = ''person'', observations = ['''']\<rparr>"

definition twice :: entity where
  "twice = \<lparr>name = ''Dup'', entityType = ''note'', observations = [''a'', ''a'']\<rparr>"

definition pair :: entity where
  "pair = \<lparr>name = ''Pair'', entityType = ''note'', observations = [''a'', ''b'']\<rparr>"

definition janeStory :: "operation list" where
  "janeStory =
     [CreateEntitiesLexical [jane, acme], AddObservationsLexical [janeTea],
      DeleteObservations [janeForget]]"








section \<open>Properties of the store\<close>

subsection \<open>Relations never touch the entity table\<close>

lemma insertRelation_frame:
  "entities_tbl (snd (insertRelation d r)) = entities_tbl d"
  "entities_vec (snd (insertRelation d r)) = entities_vec d"
  "next_id (snd (insertRelation d r)) = next_id d"
  by (simp_all add: insertRelation_def)

lemma createRelations_frame:
  "entities_tbl (snd (createRelations d rs)) = entities_tbl d \<and>
   entities_vec (snd (createRelations d rs)) = entities_vec d \<and>
   next_id (snd (createRelations d rs)) = next_id d"
proof (induction rs arbitrary: d)
  case Nil
  show ?case by simp
next
  case (Cons r rs)
  obtain b d' where ins: "insertRelation d r = (b, d')" by (cases "insertRelation d r")
  have d': "entities_tbl d' = entities_tbl d" "entities_vec d' = entities_vec d" "next_id d' = next_id d"
    using insertRelation_frame [of d r] ins by simp_all
  show ?case using Cons.IH [of d'] ins d'
    by (cases b) (auto split: prod.splits)
qed

lemma deleteRelation_frame:
  "entities_tbl (deleteRelation d r) = entities_tbl d"
  "entities_vec (deleteRelation d r) = entities_vec d"
  "next_id (deleteRelation d r) = next_id d"
  by (simp_all add: deleteRelation_def)

lemma deleteRelations_frame:
  "entities_tbl (deleteRelations d rs) = entities_tbl d \<and>
   entities_vec (deleteRelations d rs) = entities_vec d \<and>
   next_id (deleteRelations d rs) = next_id d"
  unfolding deleteRelations_def
  by (induction rs arbitrary: d) (simp_all add: deleteRelation_frame)

lemma relationToRow_rowToRelation: "relationToRow (rowToRelation x) = x"
  by (cases x) (simp add: relationToRow_def rowToRelation_def)

lemma name_rowToEntity: "name (rowToEntity e) = row_name e"
  by (simp add: rowToEntity_def)

text \<open>
  C10. \<open>createRelations\<close> and \<open>deleteRelations\<close> leave the entity table as it was,
  for every input list: the same rows, hence the same entities with the same types and
  observation sequences in a read; the embedding table is untouched as well. Only the
  relations table can change.
\<close>

theorem relations_ops_frame:
  "entities_tbl (snd (createRelations d rs)) = entities_tbl d \<and>
   entities_tbl (deleteRelations d rs) = entities_tbl d \<and>
   entities (readGraph (snd (createRelations d rs))) = entities (readGraph d) \<and>
   entities (readGraph (deleteRelations d rs)) = entities (readGraph d) \<and>
   entities_vec (snd (createRelations d rs)) = entities_vec d \<and>
   entities_vec (deleteRelations d rs) = entities_vec d"
  by (simp add: createRelations_frame deleteRelations_frame readGraph_def loadGraph_def)


subsection \<open>The fail-safe read\<close>







subsection \<open>Creating entities\<close>


lemma insertEntity_lexical_absent:
  "name e \<notin> set (map row_name (entities_tbl d)) \<Longrightarrow>
   insertEntity_lexical d e = (Some (next_id d),
      d\<lparr>entities_tbl := entities_tbl d @
           [\<lparr>row_id = next_id d, row_name = name e, row_entityType = entityType e,
             row_observations = encodeObservations (observations e)\<rparr>],
        next_id := next_id d + 1\<rparr>)"
  by (simp add: insertEntity_lexical_def)

lemma insertEntity_lexical_present:
  "name e \<in> set (map row_name (entities_tbl d)) \<Longrightarrow> insertEntity_lexical d e = (None, d)"
  by (simp add: insertEntity_lexical_def)

lemma insertEntity_lexical_wf: "wf_db d \<Longrightarrow> wf_db (snd (insertEntity_lexical d e))"
  by (auto simp: insertEntity_lexical_def wf_db_def less_Suc_eq)

lemma createEntities_lexical_wf: "wf_db d \<Longrightarrow> wf_db (snd (createEntities_lexical d es))"
proof (induction es arbitrary: d)
  case Nil
  then show ?case by simp
next
  case (Cons e es)
  obtain r d' where ins: "insertEntity_lexical d e = (r, d')" by (cases "insertEntity_lexical d e")
  have "wf_db d'" using insertEntity_lexical_wf [OF Cons.prems, of e] ins by simp
  then have "wf_db (snd (createEntities_lexical d' es))" by (rule Cons.IH)
  then show ?case using ins by (cases r) (auto split: prod.splits)
qed

lemma emptyDb_wf: "wf_db emptyDb"
  by (simp add: wf_db_def emptyDb_def)

lemma count_distinct_name:
  "distinct (map f xs) \<Longrightarrow> x \<in> set xs \<Longrightarrow> length (filter (\<lambda>y. f y = f x) xs) = 1"
  by (induction xs) (auto simp: filter_empty_conv image_iff)

text \<open>
  The lexical manager: creating the same entity twice leaves one entity of that name;
  the second call changes nothing and returns the empty list, the first returns the
  entity when its name was not stored before.
\<close>

lemma createEntities_lexical_idempotent:
  assumes "wf_db d"
  shows "snd (createEntities_lexical (snd (createEntities_lexical d [E])) [E]) = snd (createEntities_lexical d [E]) \<and>
         fst (createEntities_lexical (snd (createEntities_lexical d [E])) [E]) = [] \<and>
         length (filter (\<lambda>e. row_name e = name E)
                   (entities_tbl (snd (createEntities_lexical (snd (createEntities_lexical d [E])) [E])))) = 1 \<and>
         length (filter (\<lambda>e. name e = name E)
                   (entities (readGraph (snd (createEntities_lexical (snd (createEntities_lexical d [E])) [E]))))) = 1 \<and>
         (name E \<notin> set (map row_name (entities_tbl d)) \<longrightarrow> fst (createEntities_lexical d [E]) = [E])"
proof -
  let ?d1 = "snd (createEntities_lexical d [E])"
  have wf1: "wf_db ?d1" using assms by (rule createEntities_lexical_wf)
  have present: "name E \<in> set (map row_name (entities_tbl ?d1))"
    by (cases "name E \<in> set (map row_name (entities_tbl d))")
       (simp_all add: insertEntity_lexical_absent insertEntity_lexical_present)
  have second: "createEntities_lexical ?d1 [E] = ([], ?d1)"
    using present by (simp add: insertEntity_lexical_present)
  from present obtain x where x: "x \<in> set (entities_tbl ?d1)" "row_name x = name E"
    by auto
  have "length (filter (\<lambda>y. row_name y = row_name x) (entities_tbl ?d1)) = 1"
    using wf1 x(1) by (intro count_distinct_name) (simp_all add: wf_db_def)
  then have one: "length (filter (\<lambda>e. row_name e = name E) (entities_tbl ?d1)) = 1"
    using x(2) by simp
  have read: "filter (\<lambda>e. name e = name E) (entities (readGraph ?d1))
      = map rowToEntity (filter (\<lambda>e. row_name e = name E) (entities_tbl ?d1))"
    by (simp add: readGraph_def loadGraph_def filter_map comp_def name_rowToEntity)
  have first: "name E \<notin> set (map row_name (entities_tbl d)) \<longrightarrow> fst (createEntities_lexical d [E]) = [E]"
    by (simp add: insertEntity_lexical_absent)
  show ?thesis using second one read first by simp
qed

lemma createEntities_lexical_twice_jane:
  "fst (createEntities_lexical (emptyDb :: unit db) [jane]) = [jane] \<and>
   fst (createEntities_lexical (snd (createEntities_lexical (emptyDb :: unit db) [jane])) [jane]) = [] \<and>
   entities (readGraph
     (snd (createEntities_lexical (snd (createEntities_lexical (emptyDb :: unit db) [jane])) [jane])))
     = [jane]"
  by (simp add: emptyDb_def jane_def insertEntity_lexical_def readGraph_def loadGraph_def
      rowToEntity_def encodeObservations_def decodeObservations_def delim_def)

lemma insertEntity_raises: "insertEntity d e = Inl BindTypeError"
  by (simp add: insertEntity_def)

lemma createEntities_snd: "snd (createEntities d es) = d"
  by (cases es) (simp_all add: insertEntity_raises)

text \<open>
  C5, on the vector-enabled manager, which the claim is about. Its insert binds an
  \<open>ArrayBuffer\<close> as fourth parameter, so \<open>createEntities\<close> raises on every list
  that is not empty and writes no row: called twice with Jane on the empty store, both
  calls raise and the store stays empty, where the claim has \<open>[E]\<close>, then \<open>[]\<close>,
  and one stored entity.
\<close>

theorem createEntities_raises:
  "createEntities d (E # es) = (Inl BindTypeError, d) \<and>
   createEntities d [] = (Inr [], d) \<and>
   fst (createEntities (emptyDb :: unit db) [jane]) = Inl BindTypeError \<and>
   fst (createEntities (snd (createEntities (emptyDb :: unit db) [jane])) [jane])
     = Inl BindTypeError \<and>
   readGraph (snd (createEntities (snd (createEntities (emptyDb :: unit db) [jane])) [jane]))
     = \<lparr>entities = [], relations = []\<rparr>"
  by (simp add: insertEntity_raises emptyDb_def readGraph_def loadGraph_def)

subsection \<open>Deleting entities cascades\<close>

lemma deleteEntity_tables:
  "entities_tbl (deleteEntity d n) = filter (\<lambda>e. row_name e \<noteq> n) (entities_tbl d)"
  "relations_tbl (deleteEntity d n) =
     filter (\<lambda>r. from_entity r \<noteq> n \<and> to_entity r \<noteq> n) (relations_tbl d)"
  "next_id (deleteEntity d n) = next_id d"
  by (simp_all add: deleteEntity_def Let_def split: option.splits)

lemma find_unique_name:
  assumes "distinct (map row_name tbl)"
  shows "(case find (\<lambda>e. row_name e = n) tbl of
            None \<Rightarrow> {e \<in> set tbl. row_name e = n} = {}
          | Some r \<Rightarrow> {e \<in> set tbl. row_name e = n} = {r})"
  using assms
proof (induction tbl)
  case Nil
  show ?case by simp
next
  case (Cons a tbl)
  then show ?case by (auto split: option.splits simp: image_iff)
qed

lemma deleteEntity_vec:
  assumes "distinct (map row_name (entities_tbl d))"
  shows "entities_vec (deleteEntity d n) =
     filter (\<lambda>(i, v). i \<notin> row_id ` {e \<in> set (entities_tbl d). row_name e = n}) (entities_vec d)"
proof (cases "find (\<lambda>e. row_name e = n) (entities_tbl d)")
  case None
  then have e: "{e \<in> set (entities_tbl d). row_name e = n} = {}"
    using find_unique_name [OF assms, of n] by simp
  show ?thesis unfolding e using None by (simp add: deleteEntity_def)
next
  case (Some r)
  then have e: "{e \<in> set (entities_tbl d). row_name e = n} = {r}"
    using find_unique_name [OF assms, of n] by simp
  show ?thesis unfolding e using Some by (simp add: deleteEntity_def)
qed

lemma deleteEntities_Cons: "deleteEntities d (n # ns) = deleteEntities (deleteEntity d n) ns"
  by (simp add: deleteEntities_def)

lemma deleteEntities_tables:
  "entities_tbl (deleteEntities d ns) = filter (\<lambda>e. row_name e \<notin> set ns) (entities_tbl d) \<and>
   relations_tbl (deleteEntities d ns) =
     filter (\<lambda>r. from_entity r \<notin> set ns \<and> to_entity r \<notin> set ns) (relations_tbl d)"
proof (induction ns arbitrary: d)
  case Nil
  show ?case by (simp add: deleteEntities_def)
next
  case (Cons n ns)
  show ?case
    unfolding deleteEntities_Cons
    by (simp add: Cons.IH deleteEntity_tables conj_commute conj_left_commute cong: conj_cong)

qed

lemma deleteEntities_vec:
  "distinct (map row_name (entities_tbl d)) \<Longrightarrow>
   entities_vec (deleteEntities d ns) =
     filter (\<lambda>(i, v). i \<notin> row_id ` {e \<in> set (entities_tbl d). row_name e \<in> set ns})
       (entities_vec d)"
proof (induction ns arbitrary: d)
  case Nil
  show ?case by (simp add: deleteEntities_def)
next
  case (Cons n ns)
  let ?d' = "deleteEntity d n"
  have dist': "distinct (map row_name (entities_tbl ?d'))"
    using Cons.prems by (simp add: deleteEntity_tables distinct_map_filter)
  have ids: "row_id ` {e \<in> set (entities_tbl d). row_name e \<in> set (n # ns)} =
             row_id ` {e \<in> set (entities_tbl d). row_name e = n} \<union>
             row_id ` {e \<in> set (entities_tbl ?d'). row_name e \<in> set ns}"
    by (auto simp: deleteEntity_tables)
  show ?case
    unfolding deleteEntities_Cons Cons.IH [OF dist'] deleteEntity_vec [OF Cons.prems] ids
    by (auto intro: filter_cong)
qed

lemma deleteEntities_lexical_tables:
  "entities_tbl (deleteEntities_lexical d ns) = filter (\<lambda>e. row_name e \<notin> set ns) (entities_tbl d) \<and>
   relations_tbl (deleteEntities_lexical d ns) =
     filter (\<lambda>r. from_entity r \<notin> set ns \<and> to_entity r \<notin> set ns) (relations_tbl d)"
proof (induction ns arbitrary: d)
  case Nil
  show ?case by (simp add: deleteEntities_lexical_def)
next
  case (Cons n ns)
  have step: "deleteEntities_lexical d (n # ns) = deleteEntities_lexical (deleteEntity_lexical d n) ns"
    by (simp add: deleteEntities_lexical_def)
  show ?case
    unfolding step
    by (simp add: Cons.IH deleteEntity_lexical_def conj_commute conj_left_commute cong: conj_cong)
qed

text \<open>
  C7 (as the code has it). For every name list, \<open>deleteEntities\<close> removes the
  row of each named entity, every relation with a listed name as \<open>from\<close> or
  \<open>to\<close>, and the embedding record of each removed entity; nothing else is removed.
  The operation has no error result. A name that matches no entity is not skipped
  altogether: the entity table and the embedding table stay as they are, but the
  relations that carry the name are deleted like those of an existing entity. A read
  afterwards holds no entity with a listed name and no relation touching one. The
  lexical manager does the same to the two tables it has.
\<close>

theorem deleteEntities_cascade:
  assumes "wf_db d"
  shows "entities_tbl (deleteEntities d ns) = filter (\<lambda>e. row_name e \<notin> set ns) (entities_tbl d) \<and>
         relations_tbl (deleteEntities d ns) =
           filter (\<lambda>r. from_entity r \<notin> set ns \<and> to_entity r \<notin> set ns) (relations_tbl d) \<and>
         entities_vec (deleteEntities d ns) =
           filter (\<lambda>(i, v). i \<notin> set (map row_id
                      (filter (\<lambda>e. row_name e \<in> set ns) (entities_tbl d))))
             (entities_vec d) \<and>
         entities_tbl (deleteEntities_lexical d ns) = entities_tbl (deleteEntities d ns) \<and>
         relations_tbl (deleteEntities_lexical d ns) = relations_tbl (deleteEntities d ns) \<and>
         (\<forall>e \<in> set (entities (readGraph (deleteEntities d ns))). name e \<notin> set ns) \<and>
         (\<forall>r \<in> set (relations (readGraph (deleteEntities d ns))).
            rel_from r \<notin> set ns \<and> rel_to r \<notin> set ns) \<and>
         (\<forall>n \<in> set ns. n \<notin> set (map row_name (entities_tbl d)) \<longrightarrow>
            entities_tbl (deleteEntities d [n]) = entities_tbl d \<and>
            entities_vec (deleteEntities d [n]) = entities_vec d)"
proof -
  have names: "distinct (map row_name (entities_tbl d))"
    using assms by (simp add: wf_db_def)
  have skip: "entities_tbl (deleteEntities d [n]) = entities_tbl d \<and>
              entities_vec (deleteEntities d [n]) = entities_vec d"
    if "n \<notin> set (map row_name (entities_tbl d))" for n
  proof -
    have none: "{e \<in> set (entities_tbl d). row_name e \<in> set [n]} = {}"
      using that by auto
    have "filter (\<lambda>e. row_name e \<notin> set [n]) (entities_tbl d) = entities_tbl d"
      using that by (auto simp: filter_id_conv)
    then show ?thesis
      unfolding deleteEntities_vec [OF names] none
      by (simp add: deleteEntities_tables)
  qed
  have rd: "\<forall>e \<in> set (entities (readGraph (deleteEntities d ns))). name e \<notin> set ns"
    by (auto simp: readGraph_def loadGraph_def deleteEntities_tables name_rowToEntity)
  have rr: "\<forall>r \<in> set (relations (readGraph (deleteEntities d ns))).
            rel_from r \<notin> set ns \<and> rel_to r \<notin> set ns"
    by (auto simp: readGraph_def loadGraph_def deleteEntities_tables rowToRelation_def)
  have img: "row_id ` {e \<in> set (entities_tbl d). row_name e \<in> set ns} =
             set (map row_id (filter (\<lambda>e. row_name e \<in> set ns) (entities_tbl d)))"
    by simp
  show ?thesis
    using deleteEntities_vec [OF names, of ns] skip rd rr
    unfolding img
    by (simp add: deleteEntities_tables deleteEntities_lexical_tables)
qed

theorem deleteEntities_cascade_witness:
  "wf_db janeAcmeDb \<and>
   ''Nobody'' \<in> set [''Acme'', ''Nobody''] \<and>
   ''Nobody'' \<notin> set (map row_name (entities_tbl janeAcmeDb)) \<and>
   map row_name (entities_tbl (deleteEntities janeAcmeDb [''Acme'', ''Nobody''])) = [''Jane''] \<and>
   relations_tbl (deleteEntities janeAcmeDb [''Acme'', ''Nobody'']) = [] \<and>
   entities_vec (deleteEntities janeAcmeDb [''Acme'', ''Nobody'']) = [] \<and>
   entities (readGraph (deleteEntities janeAcmeDb [''Acme'', ''Nobody''])) = [jane] \<and>
   entities_tbl (deleteEntities janeAcmeDb [''Nobody'']) = entities_tbl janeAcmeDb"
proof -
  have wf: "wf_db janeAcmeDb"
    by (simp add: janeAcmeDb_def wf_db_def)
  have rd: "entities (readGraph (deleteEntities janeAcmeDb [''Acme'', ''Nobody''])) = [jane]"
    by (simp add: readGraph_def loadGraph_def deleteEntities_tables janeAcmeDb_def
        rowToEntity_def jane_def decodeObservations_def delim_def)
  show ?thesis
    using deleteEntities_cascade [OF wf, of "[''Acme'', ''Nobody'']"] wf rd
    by (simp add: janeAcmeDb_def)
qed

text \<open>
  Against C7 as stated: Ghost is the name of no entity, yet deleting it removes the
  relation from Jane to Ghost from the graph, in both managers.
\<close>

theorem deleteEntities_ghost_counterexample:
  "''Ghost'' \<notin> set (map name (entities (readGraph ghostDb))) \<and>
   relations (readGraph ghostDb) = [worksAt, knowsGhost] \<and>
   relations (readGraph (deleteEntities ghostDb [''Ghost''])) = [worksAt] \<and>
   relations (readGraph (deleteEntities_lexical ghostDb [''Ghost''])) = [worksAt] \<and>
   readGraph (deleteEntities ghostDb [''Ghost'']) \<noteq> readGraph ghostDb"
proof -
  have g: "ghostDb = janeAcmeDb\<lparr>relations_tbl :=
      [\<lparr>from_entity = ''Jane'', to_entity = ''Acme'', row_relationType = ''works_at''\<rparr>,
       \<lparr>from_entity = ''Jane'', to_entity = ''Ghost'', row_relationType = ''knows''\<rparr>]\<rparr>"
    by (simp add: ghostDb_def janeAcmeDb_def insertRelation_def knowsGhost_def relationToRow_def)
  have a: "''Ghost'' \<notin> set (map name (entities (readGraph ghostDb)))"
    by (simp add: g readGraph_def loadGraph_def janeAcmeDb_def rowToEntity_def)
  have b: "relations (readGraph ghostDb) = [worksAt, knowsGhost]"
    by (simp add: g readGraph_def loadGraph_def rowToRelation_def worksAt_def knowsGhost_def)
  have c: "relations (readGraph (deleteEntities ghostDb [''Ghost''])) = [worksAt]"
    by (simp add: g readGraph_def loadGraph_def deleteEntities_tables rowToRelation_def
        worksAt_def)
  have d: "relations (readGraph (deleteEntities_lexical ghostDb [''Ghost''])) = [worksAt]"
    by (simp add: g readGraph_def loadGraph_def deleteEntities_lexical_tables rowToRelation_def
        worksAt_def)
  have "relations (readGraph (deleteEntities ghostDb [''Ghost''])) \<noteq> relations (readGraph ghostDb)"
    unfolding b c by simp
  then have e: "readGraph (deleteEntities ghostDb [''Ghost'']) \<noteq> readGraph ghostDb"
    by auto
  show ?thesis using a b c d e by simp
qed

subsection \<open>Vector search\<close>

lemma arrayBuffer_not_bound: "\<not> list_all bindable (BoundArrayBuffer # bs)"
  by simp

text \<open>
  C1, on the code. \<open>searchNodes\<close> of the vector-enabled manager returns no graph for
  any store, query and \<open>topK\<close>: when the embedding is computed, the index query
  fails, at its preparation when the extension defines no \<open>vec_search\<close> (the loaded
  one does not), and otherwise when the \<open>ArrayBuffer\<close> of the query embedding is
  bound. Both come before the test for an empty index, so on the empty store the call
  raises where the claim has the empty graph.
\<close>

theorem searchNodes_raises:
  "isl (searchNodes generateEmbedding vec_search distance d query topK) \<and>
   searchNodes generateEmbedding None distance d query topK =
     (case generateEmbedding query of
        None \<Rightarrow> Inl EmbeddingFailed
      | Some queryEmbedding \<Rightarrow> Inl (NoSuchFunction ''vec_search'')) \<and>
   searchNodes generateEmbedding (Some matches) distance d query topK =
     (case generateEmbedding query of
        None \<Rightarrow> Inl EmbeddingFailed
      | Some queryEmbedding \<Rightarrow> Inl BindTypeError) \<and>
   searchNodes lengthEmbedding None absDistance (emptyDb :: int db) ''tea'' 5 =
     Inl (NoSuchFunction ''vec_search'')"
proof -
  have a: "isl (searchNodes generateEmbedding vec_search distance d query topK)"
    by (cases "generateEmbedding query"; cases vec_search)
       (simp_all add: searchNodes_def arrayBuffer_not_bound)
  have b: "searchNodes generateEmbedding None distance d query topK =
     (case generateEmbedding query of
        None \<Rightarrow> Inl EmbeddingFailed
      | Some queryEmbedding \<Rightarrow> Inl (NoSuchFunction ''vec_search''))"
    by (cases "generateEmbedding query") (simp_all add: searchNodes_def)
  have c: "searchNodes generateEmbedding (Some matches) distance d query topK =
     (case generateEmbedding query of
        None \<Rightarrow> Inl EmbeddingFailed
      | Some queryEmbedding \<Rightarrow> Inl BindTypeError)"
    by (cases "generateEmbedding query") (simp_all add: searchNodes_def arrayBuffer_not_bound)
  have e: "searchNodes lengthEmbedding None absDistance (emptyDb :: int db) ''tea'' 5 =
     Inl (NoSuchFunction ''vec_search'')"
    by (simp add: searchNodes_def lengthEmbedding_def)
  show ?thesis by (intro conjI a b c e)
qed

subsection \<open>Adding observations to a missing entity\<close>

lemma filter_other_names:
  "filter (\<lambda>e. row_name e \<noteq> n)
     (map (\<lambda>e. if row_name e = n then e\<lparr>row_observations := t\<rparr> else e) tbl) =
   filter (\<lambda>e. row_name e \<noteq> n) tbl"
  by (induction tbl) simp_all

lemma updateEntityObservations_frame:
  "map row_name (entities_tbl (updateEntityObservations d t n)) = map row_name (entities_tbl d)"
  "map row_id (entities_tbl (updateEntityObservations d t n)) = map row_id (entities_tbl d)"
  "relations_tbl (updateEntityObservations d t n) = relations_tbl d"
  "entities_vec (updateEntityObservations d t n) = entities_vec d"
  "next_id (updateEntityObservations d t n) = next_id d"
  "filter (\<lambda>e. row_name e \<noteq> n) (entities_tbl (updateEntityObservations d t n)) =
     filter (\<lambda>e. row_name e \<noteq> n) (entities_tbl d)"
  by (simp_all add: updateEntityObservations_def comp_def if_distrib filter_other_names
      cong: if_cong)

lemma find_name_None:
  "find (\<lambda>e. row_name e = n) tbl = None \<longleftrightarrow> n \<notin> set (map row_name tbl)"
  by (auto simp: find_None_iff)

lemma addObservationsTo_unknown:
  "\<not> known d ob \<Longrightarrow> addObservationsTo d ob = Inl (EntityNotFound (entityName ob))"
  using find_name_None [of "entityName ob" "entities_tbl d"]
  by (simp add: addObservationsTo_def known_def)

lemma addObservationsTo_known:
  assumes "known d ob"
  shows "\<exists>res d'. addObservationsTo d ob = Inr (res, d') \<and>
           map row_name (entities_tbl d') = map row_name (entities_tbl d) \<and>
           relations_tbl d' = relations_tbl d \<and> entities_vec d' = entities_vec d \<and>
           filter (\<lambda>e. row_name e \<noteq> entityName ob) (entities_tbl d') =
             filter (\<lambda>e. row_name e \<noteq> entityName ob) (entities_tbl d)"
proof -
  from assms obtain r where "find (\<lambda>e. row_name e = entityName ob) (entities_tbl d) = Some r"
    using find_name_None [of "entityName ob" "entities_tbl d"]
    by (cases "find (\<lambda>e. row_name e = entityName ob) (entities_tbl d)") (auto simp: known_def)
  then show ?thesis
    by (simp add: addObservationsTo_def Let_def updateEntityObservations_frame)
qed

lemma known_cong:
  "map row_name (entities_tbl d') = map row_name (entities_tbl d) \<Longrightarrow> known d' = known d"
  by (auto simp: known_def fun_eq_iff)

lemma addObservations_lexical_unknown:
  "\<not> known d ob \<Longrightarrow>
   addObservations_lexical d (ob # obs) = (Inl (EntityNotFound (entityName ob)), d)"
  by (simp add: addObservationsTo_unknown)

lemma addObservations_unknown:
  "\<not> known d ob \<Longrightarrow>
   addObservations d (ob # obs) = (Inl (EntityNotFound (entityName ob)), snd (addObservations d obs))"
  by (simp add: addObservationsTo_unknown)

lemma addObservations_lexical_step:
  assumes "addObservationsTo d ob = Inr (res, d')"
  shows "snd (addObservations_lexical d (ob # obs)) = snd (addObservations_lexical d' obs)"
    and "fst (addObservations_lexical d (ob # obs)) =
           (case fst (addObservations_lexical d' obs) of
              Inl err \<Rightarrow> Inl err | Inr results \<Rightarrow> Inr (res # results))"
  using assms by (auto split: prod.splits sum.splits)

lemma addObservations_step:
  assumes "addObservationsTo d ob = Inr (res, d')"
  shows "snd (addObservations d (ob # obs)) = snd (addObservations d' obs)"
    and "fst (addObservations d (ob # obs)) =
           (case fst (addObservations d' obs) of
              Inl err \<Rightarrow> Inl err | Inr results \<Rightarrow> Inr (res # results))"
  using assms by (auto split: prod.splits sum.splits)

lemma filter_unnamed_step:
  assumes "filter (\<lambda>e. row_name e \<notin> S) t2 = filter (\<lambda>e. row_name e \<notin> S) t1"
    and "filter (\<lambda>e. row_name e \<noteq> n) t1 = filter (\<lambda>e. row_name e \<noteq> n) t0"
  shows "filter (\<lambda>e. row_name e \<notin> insert n S) t2 = filter (\<lambda>e. row_name e \<notin> insert n S) t0"
proof -
  have "filter (\<lambda>e. row_name e \<notin> insert n S) t2 =
        filter (\<lambda>e. row_name e \<noteq> n) (filter (\<lambda>e. row_name e \<notin> S) t2)"
    by (simp add: conj_commute)
  also have "\<dots> = filter (\<lambda>e. row_name e \<notin> S) (filter (\<lambda>e. row_name e \<noteq> n) t1)"
    unfolding assms(1) by (simp add: conj_commute)
  also have "\<dots> = filter (\<lambda>e. row_name e \<notin> insert n S) t0"
    unfolding assms(2) by (simp add: conj_commute)
  finally show ?thesis .
qed

lemma addObservations_lexical_frame:
  "map row_name (entities_tbl (snd (addObservations_lexical d obs))) = map row_name (entities_tbl d) \<and>
   relations_tbl (snd (addObservations_lexical d obs)) = relations_tbl d \<and>
   entities_vec (snd (addObservations_lexical d obs)) = entities_vec d \<and>
   filter (\<lambda>e. row_name e \<notin> set (map entityName obs))
      (entities_tbl (snd (addObservations_lexical d obs))) =
     filter (\<lambda>e. row_name e \<notin> set (map entityName obs)) (entities_tbl d)"
proof (induction obs arbitrary: d)
  case Nil
  show ?case by simp
next
  case (Cons ob obs)
  show ?case
  proof (cases "known d ob")
    case False
    show ?thesis
      unfolding addObservations_lexical_unknown [OF False] using False by simp
  next
    case True
    from addObservationsTo_known [OF True] obtain res d' where
      step: "addObservationsTo d ob = Inr (res, d')"
      and fr: "map row_name (entities_tbl d') = map row_name (entities_tbl d)"
        "relations_tbl d' = relations_tbl d" "entities_vec d' = entities_vec d"
      and oth: "filter (\<lambda>e. row_name e \<noteq> entityName ob) (entities_tbl d') =
             filter (\<lambda>e. row_name e \<noteq> entityName ob) (entities_tbl d)"
      by blast
    have un: "filter (\<lambda>e. row_name e \<notin> insert (entityName ob) (set (map entityName obs)))
                (entities_tbl (snd (addObservations_lexical d' obs))) =
              filter (\<lambda>e. row_name e \<notin> insert (entityName ob) (set (map entityName obs)))
                (entities_tbl d)"
      using Cons.IH [of d'] by (intro filter_unnamed_step [OF _ oth]) simp
    show ?thesis
      unfolding addObservations_lexical_step(1) [OF step]
      using Cons.IH [of d'] fr un by simp
  qed
qed

lemma addObservations_frame:
  "map row_name (entities_tbl (snd (addObservations d obs))) = map row_name (entities_tbl d) \<and>
   relations_tbl (snd (addObservations d obs)) = relations_tbl d \<and>
   entities_vec (snd (addObservations d obs)) = entities_vec d \<and>
   filter (\<lambda>e. row_name e \<notin> set (map entityName obs))
      (entities_tbl (snd (addObservations d obs))) =
     filter (\<lambda>e. row_name e \<notin> set (map entityName obs)) (entities_tbl d)"
proof (induction obs arbitrary: d)
  case Nil
  show ?case by simp
next
  case (Cons ob obs)
  show ?case
  proof (cases "known d ob")
    case False
    have "filter (\<lambda>e. row_name e \<notin> insert (entityName ob) (set (map entityName obs)))
                (entities_tbl (snd (addObservations d obs))) =
              filter (\<lambda>e. row_name e \<notin> insert (entityName ob) (set (map entityName obs)))
                (entities_tbl d)"
      using Cons.IH [of d] by (intro filter_unnamed_step [OF _ refl]) simp
    then show ?thesis
      unfolding addObservations_unknown [OF False] using Cons.IH [of d] by simp
  next
    case True
    from addObservationsTo_known [OF True] obtain res d' where
      step: "addObservationsTo d ob = Inr (res, d')"
      and fr: "map row_name (entities_tbl d') = map row_name (entities_tbl d)"
        "relations_tbl d' = relations_tbl d" "entities_vec d' = entities_vec d"
      and oth: "filter (\<lambda>e. row_name e \<noteq> entityName ob) (entities_tbl d') =
             filter (\<lambda>e. row_name e \<noteq> entityName ob) (entities_tbl d)"
      by blast
    have un: "filter (\<lambda>e. row_name e \<notin> insert (entityName ob) (set (map entityName obs)))
                (entities_tbl (snd (addObservations d' obs))) =
              filter (\<lambda>e. row_name e \<notin> insert (entityName ob) (set (map entityName obs)))
                (entities_tbl d)"
      using Cons.IH [of d'] by (intro filter_unnamed_step [OF _ oth]) simp
    show ?thesis
      unfolding addObservations_step(1) [OF step]
      using Cons.IH [of d'] fr un by simp
  qed
qed

lemma addObservations_lexical_ok:
  "\<forall>ob \<in> set obs. known d ob \<Longrightarrow> \<not> isl (fst (addObservations_lexical d obs))"
proof (induction obs arbitrary: d)
  case Nil
  show ?case by simp
next
  case (Cons ob obs)
  from Cons.prems have True: "known d ob" by simp
  from addObservationsTo_known [OF True] obtain res d' where
    step: "addObservationsTo d ob = Inr (res, d')"
    and fr: "map row_name (entities_tbl d') = map row_name (entities_tbl d)"
    by blast
  have k: "known d' = known d" using fr by (rule known_cong)
  have "\<not> isl (fst (addObservations_lexical d' obs))"
    using Cons.prems by (intro Cons.IH) (simp add: k)
  then show ?case
    unfolding addObservations_lexical_step(2) [OF step] by (auto split: sum.splits)
qed

lemma addObservations_ok:
  "\<forall>ob \<in> set obs. known d ob \<Longrightarrow> \<not> isl (fst (addObservations d obs))"
proof (induction obs arbitrary: d)
  case Nil
  show ?case by simp
next
  case (Cons ob obs)
  from Cons.prems have True: "known d ob" by simp
  from addObservationsTo_known [OF True] obtain res d' where
    step: "addObservationsTo d ob = Inr (res, d')"
    and fr: "map row_name (entities_tbl d') = map row_name (entities_tbl d)"
    by blast
  have k: "known d' = known d" using fr by (rule known_cong)
  have "\<not> isl (fst (addObservations d' obs))"
    using Cons.prems by (intro Cons.IH) (simp add: k)
  then show ?case
    unfolding addObservations_step(2) [OF step] by (auto split: sum.splits)
qed

lemma addObservations_lexical_error:
  "\<exists>ob \<in> set obs. \<not> known d ob \<Longrightarrow>
   fst (addObservations_lexical d obs) =
     Inl (EntityNotFound (entityName (hd (filter (\<lambda>ob. \<not> known d ob) obs))))"
proof (induction obs arbitrary: d)
  case Nil
  then show ?case by simp
next
  case (Cons ob obs)
  show ?case
  proof (cases "known d ob")
    case False
    show ?thesis
      unfolding addObservations_lexical_unknown [OF False] using False by simp
  next
    case True
    from addObservationsTo_known [OF True] obtain res d' where
      step: "addObservationsTo d ob = Inr (res, d')"
      and fr: "map row_name (entities_tbl d') = map row_name (entities_tbl d)"
      by blast
    have k: "known d' = known d" using fr by (rule known_cong)
    have "\<exists>ob \<in> set obs. \<not> known d' ob"
      using Cons.prems True by (auto simp: k)
    then have "fst (addObservations_lexical d' obs) =
        Inl (EntityNotFound (entityName (hd (filter (\<lambda>ob. \<not> known d' ob) obs))))"
      by (rule Cons.IH)
    then show ?thesis
      unfolding addObservations_lexical_step(2) [OF step] using True by (simp add: k)
  qed
qed

lemma addObservations_error:
  "\<exists>ob \<in> set obs. \<not> known d ob \<Longrightarrow>
   fst (addObservations d obs) =
     Inl (EntityNotFound (entityName (hd (filter (\<lambda>ob. \<not> known d ob) obs))))"
proof (induction obs arbitrary: d)
  case Nil
  then show ?case by simp
next
  case (Cons ob obs)
  show ?case
  proof (cases "known d ob")
    case False
    show ?thesis
      unfolding addObservations_unknown [OF False] using False by simp
  next
    case True
    from addObservationsTo_known [OF True] obtain res d' where
      step: "addObservationsTo d ob = Inr (res, d')"
      and fr: "map row_name (entities_tbl d') = map row_name (entities_tbl d)"
      by blast
    have k: "known d' = known d" using fr by (rule known_cong)
    have "\<exists>ob \<in> set obs. \<not> known d' ob"
      using Cons.prems True by (auto simp: k)
    then have "fst (addObservations d' obs) =
        Inl (EntityNotFound (entityName (hd (filter (\<lambda>ob. \<not> known d' ob) obs))))"
      by (rule Cons.IH)
    then show ?thesis
      unfolding addObservations_step(2) [OF step] using True by (simp add: k)
  qed
qed

lemma addObservations_lexical_prefix:
  "snd (addObservations_lexical d obs) =
   snd (addObservations_lexical d (takeWhile (known d) obs))"
proof (induction obs arbitrary: d)
  case Nil
  show ?case by simp
next
  case (Cons ob obs)
  show ?case
  proof (cases "known d ob")
    case False
    show ?thesis
      unfolding addObservations_lexical_unknown [OF False] using False by simp
  next
    case True
    from addObservationsTo_known [OF True] obtain res d' where
      step: "addObservationsTo d ob = Inr (res, d')"
      and fr: "map row_name (entities_tbl d') = map row_name (entities_tbl d)"
      by blast
    have k: "known d' = known d" using fr by (rule known_cong)
    have tw: "takeWhile (known d) (ob # obs) = ob # takeWhile (known d) obs"
      using True by simp
    show ?thesis
      unfolding tw addObservations_lexical_step(1) [OF step]
      using Cons.IH [of d'] by (simp only: k)
  qed
qed

lemma addObservations_all_known:
  "snd (addObservations d obs) = snd (addObservations d (filter (known d) obs))"
proof (induction obs arbitrary: d)
  case Nil
  show ?case by simp
next
  case (Cons ob obs)
  show ?case
  proof (cases "known d ob")
    case False
    have fl: "filter (known d) (ob # obs) = filter (known d) obs"
      using False by simp
    show ?thesis
      unfolding fl addObservations_unknown [OF False] using Cons.IH [of d] by simp
  next
    case True
    from addObservationsTo_known [OF True] obtain res d' where
      step: "addObservationsTo d ob = Inr (res, d')"
      and fr: "map row_name (entities_tbl d') = map row_name (entities_tbl d)"
      by blast
    have k: "known d' = known d" using fr by (rule known_cong)
    have fl: "filter (known d) (ob # obs) = ob # filter (known d) obs"
      using True by simp
    show ?thesis
      unfolding fl addObservations_step(1) [OF step]
      using Cons.IH [of d'] by (simp only: k)
  qed
qed

text \<open>
  C2 (as the code has it). When some listed entity does not exist, \<open>addObservations\<close>
  fails with \<open>EntityNotFound\<close> for the first missing name, in both managers. The
  failed call is not undone: the lexical manager leaves the store as the successful
  call on the targets listed before the first missing one does, the vector-enabled
  manager as the successful call on all existing targets does. Rows of entities that
  the list does not name, and the set of stored names, are unchanged.
\<close>

theorem addObservations_missing_entity:
  assumes "\<exists>ob \<in> set obs. \<not> known d ob"
  shows "fst (addObservations d obs) =
           Inl (EntityNotFound (entityName (hd (filter (\<lambda>ob. \<not> known d ob) obs)))) \<and>
         fst (addObservations_lexical d obs) =
           Inl (EntityNotFound (entityName (hd (filter (\<lambda>ob. \<not> known d ob) obs)))) \<and>
         snd (addObservations_lexical d obs) =
           snd (addObservations_lexical d (takeWhile (known d) obs)) \<and>
         \<not> isl (fst (addObservations_lexical d (takeWhile (known d) obs))) \<and>
         snd (addObservations d obs) = snd (addObservations d (filter (known d) obs)) \<and>
         \<not> isl (fst (addObservations d (filter (known d) obs))) \<and>
         filter (\<lambda>e. row_name e \<notin> set (map entityName obs))
            (entities_tbl (snd (addObservations d obs))) =
           filter (\<lambda>e. row_name e \<notin> set (map entityName obs)) (entities_tbl d) \<and>
         filter (\<lambda>e. row_name e \<notin> set (map entityName obs))
            (entities_tbl (snd (addObservations_lexical d obs))) =
           filter (\<lambda>e. row_name e \<notin> set (map entityName obs)) (entities_tbl d) \<and>
         map row_name (entities_tbl (snd (addObservations d obs))) = map row_name (entities_tbl d) \<and>
         map row_name (entities_tbl (snd (addObservations_lexical d obs))) =
           map row_name (entities_tbl d)"
proof -
  have p: "\<forall>ob \<in> set (takeWhile (known d) obs). known d ob"
    by (auto dest: set_takeWhileD)
  have f: "\<forall>ob \<in> set (filter (known d) obs). known d ob"
    by simp
  show ?thesis
    using addObservations_error [OF assms] addObservations_lexical_error [OF assms]
      addObservations_lexical_prefix [of d obs] addObservations_all_known [of d obs]
      addObservations_lexical_ok [OF p] addObservations_ok [OF f]
      addObservations_frame [of d obs] addObservations_lexical_frame [of d obs]
    by simp
qed

lemma janeAcmeDb_known:
  "known janeAcmeDb janeCoffee" "\<not> known janeAcmeDb nobodyTea"
  by (simp_all add: known_def janeAcmeDb_def janeCoffee_def nobodyTea_def)

lemma janeAcmeDb_coffee:
  "addObservationsTo janeAcmeDb janeCoffee =
     Inr (\<lparr>out_entityName = ''Jane'', addedObservations = [''drinks coffee'']\<rparr>,
          janeAcmeDb\<lparr>entities_tbl :=
            [\<lparr>row_id = 1, row_name = ''Jane'', row_entityType = ''person'',
              row_observations = ''likes tea|||drinks coffee''\<rparr>,
             \<lparr>row_id = 2, row_name = ''Acme'', row_entityType = ''org'', row_observations = []\<rparr>]\<rparr>)"
  by (simp add: addObservationsTo_def janeAcmeDb_def janeCoffee_def decodeObservations_def
      encodeObservations_def delim_def updateEntityObservations_def)

theorem addObservations_missing_entity_witness:
  "nobodyTea \<in> set [janeCoffee, nobodyTea] \<and> \<not> known janeAcmeDb nobodyTea \<and>
   fst (addObservations janeAcmeDb [janeCoffee, nobodyTea]) = Inl (EntityNotFound ''Nobody'') \<and>
   fst (addObservations_lexical janeAcmeDb [janeCoffee, nobodyTea]) = Inl (EntityNotFound ''Nobody'') \<and>
   snd (addObservations_lexical janeAcmeDb [janeCoffee, nobodyTea]) =
     snd (addObservations_lexical janeAcmeDb [janeCoffee]) \<and>
   snd (addObservations janeAcmeDb [janeCoffee, nobodyTea]) =
     snd (addObservations janeAcmeDb [janeCoffee])"
proof -
  have ex: "\<exists>ob \<in> set [janeCoffee, nobodyTea]. \<not> known janeAcmeDb ob"
    using janeAcmeDb_known by simp
  have n: "entityName nobodyTea = ''Nobody''" by (simp add: nobodyTea_def)
  show ?thesis
    using addObservations_missing_entity [OF ex] janeAcmeDb_known n
    by (simp del: addObservations.simps addObservations_lexical.simps)
qed

text \<open>
  Against C2 as stated: Jane exists and is listed before the missing Nobody; the call
  fails, and Jane's stored observations have grown.
\<close>

theorem addObservations_partial_write_counterexample:
  "\<not> known janeAcmeDb nobodyTea \<and>
   fst (addObservations janeAcmeDb [janeCoffee, nobodyTea]) = Inl (EntityNotFound ''Nobody'') \<and>
   fst (addObservations_lexical janeAcmeDb [janeCoffee, nobodyTea]) = Inl (EntityNotFound ''Nobody'') \<and>
   map observations (entities (readGraph janeAcmeDb)) = [ [''likes tea''], []] \<and>
   map observations (entities (readGraph (snd (addObservations janeAcmeDb [janeCoffee, nobodyTea]))))
     = [ [''likes tea'', ''drinks coffee''], []] \<and>
   map observations
     (entities (readGraph (snd (addObservations_lexical janeAcmeDb [janeCoffee, nobodyTea]))))
     = [ [''likes tea'', ''drinks coffee''], []]"
proof -
  let ?d' = "janeAcmeDb\<lparr>entities_tbl :=
            [\<lparr>row_id = 1, row_name = ''Jane'', row_entityType = ''person'',
              row_observations = ''likes tea|||drinks coffee''\<rparr>,
             \<lparr>row_id = 2, row_name = ''Acme'', row_entityType = ''org'', row_observations = []\<rparr>]\<rparr>"
  have k': "\<not> known ?d' nobodyTea"
    by (simp add: known_def nobodyTea_def)
  have v: "addObservations janeAcmeDb [janeCoffee, nobodyTea] = (Inl (EntityNotFound ''Nobody''), ?d')"
    using addObservationsTo_unknown [OF k'] by (simp add: janeAcmeDb_coffee nobodyTea_def)
  have l: "addObservations_lexical janeAcmeDb [janeCoffee, nobodyTea] =
             (Inl (EntityNotFound ''Nobody''), ?d')"
    using addObservationsTo_unknown [OF k'] by (simp add: janeAcmeDb_coffee nobodyTea_def)
  have before: "map observations (entities (readGraph janeAcmeDb)) = [ [''likes tea''], []]"
    by (simp add: readGraph_def loadGraph_def janeAcmeDb_def rowToEntity_def decodeObservations_def
        delim_def)
  have after: "map observations (entities (readGraph ?d')) = [ [''likes tea'', ''drinks coffee''], []]"
    by (simp add: readGraph_def loadGraph_def rowToEntity_def decodeObservations_def delim_def)
  show ?thesis
    unfolding v l using janeAcmeDb_known before after by simp
qed


subsection \<open>The observation encoding\<close>

lemma splitDelim_no_bar:
  "c \<noteq> CHR ''|'' \<Longrightarrow> splitDelim cur (c # cs) = splitDelim (cur @ [c]) cs"
  by (auto simp: delim_def)

lemma splitDelim_at_delim:
  "splitDelim cur (delim @ rest) = cur # splitDelim [] rest"
  by (simp add: delim_def)

declare splitDelim.simps(2) [simp del]

lemma splitDelim_delimFree:
  "delimFree s \<Longrightarrow> splitDelim cur s = [cur @ s]"
proof (induction s arbitrary: cur)
  case Nil
  show ?case by simp
next
  case (Cons c cs)
  then have c: "c \<noteq> CHR ''|''" and cs: "delimFree cs" by (auto simp: delimFree_def)
  show ?case
    unfolding splitDelim_no_bar [OF c] using Cons.IH [OF cs, of "cur @ [c]"] by simp
qed

lemma splitDelim_piece:
  "delimFree x \<Longrightarrow> splitDelim cur (x @ delim @ rest) = (cur @ x) # splitDelim [] rest"
proof (induction x arbitrary: cur)
  case Nil
  show ?case using splitDelim_at_delim [of cur rest] by simp
next
  case (Cons c cs)
  then have c: "c \<noteq> CHR ''|''" and cs: "delimFree cs" by (auto simp: delimFree_def)
  have "splitDelim cur ((c # cs) @ delim @ rest) = splitDelim (cur @ [c]) (cs @ delim @ rest)"
    using splitDelim_no_bar [OF c] by simp
  also have "\<dots> = ((cur @ [c]) @ cs) # splitDelim [] rest"
    using cs by (rule Cons.IH)
  finally show ?case by simp
qed

lemma splitDelim_joinWith:
  "\<forall>x \<in> set (x0 # xs). delimFree x \<Longrightarrow>
   splitDelim cur (joinWith delim (x0 # xs)) = (cur @ x0) # xs"
proof (induction xs arbitrary: x0 cur)
  case Nil
  then show ?case by (simp add: splitDelim_delimFree)
next
  case (Cons y ys)
  then have x0: "delimFree x0" and rest: "\<forall>x \<in> set (y # ys). delimFree x" by simp_all
  have "splitDelim cur (joinWith delim (x0 # y # ys)) =
        (cur @ x0) # splitDelim [] (joinWith delim (y # ys))"
    using splitDelim_piece [OF x0] by simp
  also have "splitDelim [] (joinWith delim (y # ys)) = ([] @ y) # ys"
    using rest by (rule Cons.IH)
  finally show ?case by simp
qed

lemma joinWith_delim_empty:
  "joinWith delim xs = [] \<longleftrightarrow> xs = [] \<or> xs = ['''']"
proof (cases xs)
  case Nil
  then show ?thesis by simp
next
  case (Cons x ys)
  then show ?thesis by (cases ys) (simp_all add: delim_def)
qed

lemma decode_encode:
  assumes "\<forall>x \<in> set xs. delimFree x"
  shows "decodeObservations (encodeObservations xs) = (if xs = [''''] then [] else xs)"
proof (cases xs)
  case Nil
  then show ?thesis by (simp add: decodeObservations_def encodeObservations_def)
next
  case (Cons x0 ys)
  have "splitDelim [] (joinWith delim (x0 # ys)) = x0 # ys"
    using splitDelim_joinWith [of x0 ys "[]"] assms Cons by simp
  then show ?thesis
    using Cons joinWith_delim_empty [of xs]
    by (simp add: decodeObservations_def encodeObservations_def)
qed

lemma insertEntity_lexical_rows:
  "set (entities_tbl d) \<subseteq> set (entities_tbl (snd (insertEntity_lexical d e)))"
  by (auto simp: insertEntity_lexical_def)

lemma createEntities_lexical_rows:
  "set (entities_tbl d) \<subseteq> set (entities_tbl (snd (createEntities_lexical d es)))"
proof (induction es arbitrary: d)
  case Nil
  show ?case by simp
next
  case (Cons e es)
  obtain r d' where ins: "insertEntity_lexical d e = (r, d')" by (cases "insertEntity_lexical d e")
  have "set (entities_tbl d) \<subseteq> set (entities_tbl d')"
    using insertEntity_lexical_rows [of d e] ins by simp
  also have "\<dots> \<subseteq> set (entities_tbl (snd (createEntities_lexical d' es)))"
    by (rule Cons.IH)
  finally show ?case using ins by (cases r) (auto split: prod.splits)
qed

lemma createEntities_lexical_new_row:
  "E \<in> set (fst (createEntities_lexical d es)) \<Longrightarrow>
   \<exists>r \<in> set (entities_tbl (snd (createEntities_lexical d es))).
      row_name r = name E \<and> row_entityType r = entityType E \<and>
      row_observations r = encodeObservations (observations E)"
proof (induction es arbitrary: d)
  case Nil
  then show ?case by simp
next
  case (Cons e es)
  show ?case
  proof (cases "name e \<in> set (map row_name (entities_tbl d))")
    case True
    then show ?thesis
      using Cons.prems Cons.IH [of d] by (simp add: insertEntity_lexical_present)
  next
    case False
    let ?row = "\<lparr>row_id = next_id d, row_name = name e, row_entityType = entityType e,
                   row_observations = encodeObservations (observations e)\<rparr>"
    let ?d' = "d\<lparr>entities_tbl := entities_tbl d @ [?row], next_id := next_id d + 1\<rparr>"
    have ins: "insertEntity_lexical d e = (Some (next_id d), ?d')"
      using False by (rule insertEntity_lexical_absent)
    have res: "fst (createEntities_lexical d (e # es)) = e # fst (createEntities_lexical ?d' es)"
      "snd (createEntities_lexical d (e # es)) = snd (createEntities_lexical ?d' es)"
      using ins by (simp_all split: prod.splits)
    show ?thesis
    proof (cases "E = e")
      case True
      have "?row \<in> set (entities_tbl ?d')" by simp
      then have "?row \<in> set (entities_tbl (snd (createEntities_lexical ?d' es)))"
        using createEntities_lexical_rows [of ?d' es] by blast
      then show ?thesis unfolding res True by (intro bexI [of _ ?row]) simp_all
    next
      case False
      then have "E \<in> set (fst (createEntities_lexical ?d' es))"
        using Cons.prems res by simp
      then show ?thesis unfolding res by (rule Cons.IH)
    qed
  qed
qed

lemma filter_unique_name:
  "distinct (map row_name tbl) \<Longrightarrow> r \<in> set tbl \<Longrightarrow>
   filter (\<lambda>e. row_name e = row_name r) tbl = [r]"
proof (induction tbl)
  case Nil
  then show ?case by simp
next
  case (Cons a tbl)
  then show ?case by (auto simp: filter_empty_conv image_iff)
qed

text \<open>
  C4 (as the code has it). An entity that \<open>createEntities\<close> of the lexical
  manager has created (the vector-enabled one creates none) is read back by
  \<open>readGraph\<close> and \<open>openNodes\<close> with the observation list it was given, provided
  no observation contains the character \<open>|\<close> and the list is not the single empty
  string: on these lists joining with \<open>|||\<close> and splitting again is the identity.
\<close>

theorem createEntities_roundtrip:
  assumes "wf_db d"
    and "E \<in> set (fst (createEntities_lexical d es))"
    and "\<forall>x \<in> set (observations E). delimFree x"
    and "observations E \<noteq> ['''']"
  shows "E \<in> set (entities (readGraph (snd (createEntities_lexical d es)))) \<and>
         (\<forall>e \<in> set (entities (readGraph (snd (createEntities_lexical d es)))).
            name e = name E \<longrightarrow> e = E) \<and>
         entities (openNodes (snd (createEntities_lexical d es)) [name E]) = [E]"
proof -
  let ?d' = "snd (createEntities_lexical d es)"
  from createEntities_lexical_new_row [OF assms(2)] obtain r where
    r: "r \<in> set (entities_tbl ?d')" "row_name r = name E" "row_entityType r = entityType E"
      "row_observations r = encodeObservations (observations E)"
    by blast
  have "rowToEntity r = \<lparr>name = name E, entityType = entityType E, observations = observations E\<rparr>"
    using r decode_encode [OF assms(3)] assms(4) by (simp add: rowToEntity_def)
  then have rE: "rowToEntity r = E" by simp
  have "distinct (map row_name (entities_tbl ?d'))"
    using createEntities_lexical_wf [OF assms(1), of es] by (simp add: wf_db_def)
  then have one: "filter (\<lambda>e. row_name e = name E) (entities_tbl ?d') = [r]"
    using filter_unique_name [of "entities_tbl ?d'" r] r by simp
  have mem: "E \<in> set (entities (readGraph ?d'))"
    using r(1) rE by (force simp: readGraph_def loadGraph_def)
  have uniq: "\<forall>e \<in> set (entities (readGraph ?d')). name e = name E \<longrightarrow> e = E"
  proof (intro ballI impI)
    fix e assume e: "e \<in> set (entities (readGraph ?d'))" and n: "name e = name E"
    from e obtain r' where r': "r' \<in> set (entities_tbl ?d')" "e = rowToEntity r'"
      by (auto simp: readGraph_def loadGraph_def)
    then have "r' \<in> set (filter (\<lambda>e. row_name e = name E) (entities_tbl ?d'))"
      using n by (simp add: name_rowToEntity)
    then have "r' = r" unfolding one by simp
    then show "e = E" using r'(2) rE by simp
  qed
  have "entities (openNodes ?d' [name E]) = [E]"
    using one rE by (simp add: openNodes_def selectEntitiesNamed_def)
  then show ?thesis using mem uniq by simp
qed

theorem createEntities_roundtrip_witness:
  "wf_db (emptyDb :: unit db) \<and> jane \<in> set (fst (createEntities_lexical (emptyDb :: unit db) [jane, acme])) \<and>
   observations jane = [''likes tea''] \<and> delimFree ''likes tea'' \<and>
   jane \<in> set (entities (readGraph (snd (createEntities_lexical (emptyDb :: unit db) [jane, acme])))) \<and>
   entities (openNodes (snd (createEntities_lexical (emptyDb :: unit db) [jane, acme])) [''Jane'']) = [jane]"
proof -
  have c: "jane \<in> set (fst (createEntities_lexical (emptyDb :: unit db) [jane, acme]))"
    by (simp add: emptyDb_def insertEntity_lexical_def jane_def acme_def)
  have o: "\<forall>x \<in> set (observations jane). delimFree x" "observations jane \<noteq> ['''']"
    by (simp_all add: jane_def delimFree_def)
  have n: "name jane = ''Jane''" by (simp add: jane_def)
  have j: "observations jane = [''likes tea'']" "delimFree ''likes tea''"
    by (simp_all add: jane_def delimFree_def)
  show ?thesis
    using createEntities_roundtrip [OF emptyDb_wf c o] c j emptyDb_wf n
    by (simp del: createEntities_lexical.simps)
qed

text \<open>
  Against C4 as stated: an observation holding the delimiter is read back as two
  observations, and the list of one empty string is read back as the empty list.
\<close>

theorem createEntities_roundtrip_counterexample:
  "fst (createEntities_lexical (emptyDb :: unit db) [piped, blank]) = [piped, blank] \<and>
   map observations [piped, blank] = [ [''a|||b''], ['''']] \<and>
   map observations (entities (readGraph (snd (createEntities_lexical (emptyDb :: unit db) [piped, blank]))))
     = [ [''a'', ''b''], []] \<and>
   map observations
     (entities (openNodes (snd (createEntities_lexical (emptyDb :: unit db) [piped, blank])) [''Bob'', ''Eve'']))
     = [ [''a'', ''b''], []]"
  by code_simp


subsection \<open>Merging observations\<close>

lemma addObservationsTo_found:
  assumes "find (\<lambda>e. row_name e = n) (entities_tbl d) = Some r"
  shows "addObservationsTo d \<lparr>entityName = n, contents = cs\<rparr> =
     Inr (\<lparr>out_entityName = n,
           addedObservations =
             filter (\<lambda>c. c \<notin> set (decodeObservations (row_observations r))) cs\<rparr>,
          if filter (\<lambda>c. c \<notin> set (decodeObservations (row_observations r))) cs = [] then d
          else updateEntityObservations d
                 (encodeObservations (decodeObservations (row_observations r) @
                    filter (\<lambda>c. c \<notin> set (decodeObservations (row_observations r))) cs)) n)"
  using assms by (simp add: addObservationsTo_def Let_def)

lemma updated_rows:
  assumes "r' \<in> set (entities_tbl (updateEntityObservations d t n))" and "row_name r' = n"
  shows "row_observations r' = t"
proof -
  from assms(1) obtain e where e: "e \<in> set (entities_tbl d)"
    and r': "r' = (if row_name e = n then e\<lparr>row_observations := t\<rparr> else e)"
    unfolding updateEntityObservations_def by (force simp: image_iff)
  show ?thesis
  proof (cases "row_name e = n")
    case True
    then show ?thesis using r' by simp
  next
    case False
    then show ?thesis using r' assms(2) by simp
  qed
qed

lemma find_Some_unique:
  assumes "distinct (map row_name tbl)" and "find (\<lambda>e. row_name e = n) tbl = Some r"
    and "r' \<in> set tbl" and "row_name r' = n"
  shows "r' = r"
proof -
  have "{e \<in> set tbl. row_name e = n} = {r}"
    using find_unique_name [OF assms(1), of n] assms(2) by simp
  then show ?thesis using assms(3,4) by blast
qed

lemma updated_table:
  "entities_tbl (updateEntityObservations d t n) =
     map (\<lambda>e. if row_name e = n then e\<lparr>row_observations := t\<rparr> else e) (entities_tbl d)"
  by (simp add: updateEntityObservations_def)

text \<open>
  C6 (as the code has it). For an existing entity and every contents list,
  \<open>addObservations\<close> returns as \<open>addedObservations\<close> the contents that are not
  among the existing observations, in input order, in both managers. When nothing is
  new the store is unchanged; otherwise the text stored for the entity is the join of
  the existing observations followed by the added ones. When no existing or supplied
  observation contains the character \<open>|\<close>, and the merged list is not the single
  empty string, a read afterwards holds exactly one entity of that name, and its
  observations are the existing ones followed by exactly the added ones.
\<close>

theorem addObservations_merge:
  assumes "find (\<lambda>e. row_name e = n) (entities_tbl d) = Some r"
  shows "fst (addObservations d [\<lparr>entityName = n, contents = cs\<rparr>]) =
           Inr [\<lparr>out_entityName = n,
                 addedObservations =
                   filter (\<lambda>c. c \<notin> set (decodeObservations (row_observations r))) cs\<rparr>] \<and>
         addObservations_lexical d [\<lparr>entityName = n, contents = cs\<rparr>] =
           addObservations d [\<lparr>entityName = n, contents = cs\<rparr>] \<and>
         (filter (\<lambda>c. c \<notin> set (decodeObservations (row_observations r))) cs = [] \<longrightarrow>
            snd (addObservations d [\<lparr>entityName = n, contents = cs\<rparr>]) = d) \<and>
         (filter (\<lambda>c. c \<notin> set (decodeObservations (row_observations r))) cs \<noteq> [] \<longrightarrow>
            entities_tbl (snd (addObservations d [\<lparr>entityName = n, contents = cs\<rparr>])) =
              map (\<lambda>e. if row_name e = n
                        then e\<lparr>row_observations :=
                               encodeObservations (decodeObservations (row_observations r) @
                                 filter (\<lambda>c. c \<notin> set (decodeObservations (row_observations r))) cs)\<rparr>
                        else e) (entities_tbl d)) \<and>
         (wf_db d \<and> (\<forall>x \<in> set (decodeObservations (row_observations r) @ cs). delimFree x) \<and>
          decodeObservations (row_observations r) @
            filter (\<lambda>c. c \<notin> set (decodeObservations (row_observations r))) cs \<noteq> [''''] \<longrightarrow>
            map observations (filter (\<lambda>e. name e = n)
               (entities (readGraph (snd (addObservations d [\<lparr>entityName = n, contents = cs\<rparr>])))))
              = [decodeObservations (row_observations r) @
                   filter (\<lambda>c. c \<notin> set (decodeObservations (row_observations r))) cs])"
proof -
  let ?existing = "decodeObservations (row_observations r)"
  let ?added = "filter (\<lambda>c. c \<notin> set ?existing) cs"
  define d' where "d' = (if ?added = [] then d
             else updateEntityObservations d (encodeObservations (?existing @ ?added)) n)"
  have step: "addObservationsTo d \<lparr>entityName = n, contents = cs\<rparr> =
      Inr (\<lparr>out_entityName = n, addedObservations = ?added\<rparr>, d')"
    unfolding d'_def using assms by (rule addObservationsTo_found)
  have v: "addObservations d [\<lparr>entityName = n, contents = cs\<rparr>] =
      (Inr [\<lparr>out_entityName = n, addedObservations = ?added\<rparr>], d')"
    unfolding addObservations.simps step by simp
  have l: "addObservations_lexical d [\<lparr>entityName = n, contents = cs\<rparr>] =
      (Inr [\<lparr>out_entityName = n, addedObservations = ?added\<rparr>], d')"
    unfolding addObservations_lexical.simps step by simp
  have c1: "fst (addObservations d [\<lparr>entityName = n, contents = cs\<rparr>]) =
           Inr [\<lparr>out_entityName = n, addedObservations = ?added\<rparr>]"
    by (simp only: v fst_conv)
  have c2: "snd (addObservations d [\<lparr>entityName = n, contents = cs\<rparr>]) = d'"
    by (simp only: v snd_conv)
  have c4: "addObservations_lexical d [\<lparr>entityName = n, contents = cs\<rparr>] =
           addObservations d [\<lparr>entityName = n, contents = cs\<rparr>]"
    by (simp only: v l)
  have same: "?added = [] \<longrightarrow> d' = d" by (simp add: d'_def)
  have stored: "?added \<noteq> [] \<longrightarrow> entities_tbl d' =
      map (\<lambda>e. if row_name e = n
                then e\<lparr>row_observations := encodeObservations (?existing @ ?added)\<rparr>
                else e) (entities_tbl d)"
    by (simp add: d'_def updated_table)
  have rd: "wf_db d \<and> (\<forall>x \<in> set (?existing @ cs). delimFree x) \<and> ?existing @ ?added \<noteq> [''''] \<longrightarrow>
      map observations (filter (\<lambda>e. name e = n) (entities (readGraph d'))) = [?existing @ ?added]"
  proof
    assume h: "wf_db d \<and> (\<forall>x \<in> set (?existing @ cs). delimFree x) \<and> ?existing @ ?added \<noteq> ['''']"
    then have wf: "wf_db d" and cl: "\<forall>x \<in> set (?existing @ cs). delimFree x"
      and ne: "?existing @ ?added \<noteq> ['''']"
      by blast+
    have clean: "\<forall>x \<in> set (?existing @ ?added). delimFree x"
      using cl by auto
    have dec: "decodeObservations (encodeObservations (?existing @ ?added)) = ?existing @ ?added"
      using decode_encode [OF clean] by (simp only: ne if_False)
    have names: "distinct (map row_name (entities_tbl d))"
      using wf by (simp add: wf_db_def)
    have names': "map row_name (entities_tbl d') = map row_name (entities_tbl d)"
      by (simp add: d'_def updateEntityObservations_frame)
    have "n \<in> set (map row_name (entities_tbl d))"
      using find_name_None [of n "entities_tbl d"] assms by auto
    then have "n \<in> set (map row_name (entities_tbl d'))" by (simp only: names')
    then obtain r' where r': "r' \<in> set (entities_tbl d')" "row_name r' = n" by auto
    have "filter (\<lambda>e. row_name e = row_name r') (entities_tbl d') = [r']"
      using names r'(1) by (intro filter_unique_name) (simp_all only: names')
    then have one: "filter (\<lambda>e. row_name e = n) (entities_tbl d') = [r']"
      by (simp only: r'(2))
    have obs: "decodeObservations (row_observations r') = ?existing @ ?added"
    proof (cases "?added = []")
      case True
      then have "r' \<in> set (entities_tbl d)" using r'(1) by (simp add: d'_def)
      then have "r' = r" using find_Some_unique [OF names assms] r'(2) by blast
      then show ?thesis using True by simp
    next
      case False
      then have "r' \<in> set (entities_tbl (updateEntityObservations d
                    (encodeObservations (?existing @ ?added)) n))"
        using r'(1) by (simp add: d'_def)
      then have "row_observations r' = encodeObservations (?existing @ ?added)"
        using r'(2) by (rule updated_rows)
      then show ?thesis using dec by simp
    qed
    have "filter (\<lambda>e. name e = n) (entities (readGraph d')) =
          map rowToEntity (filter (\<lambda>e. row_name e = n) (entities_tbl d'))"
      by (simp add: readGraph_def loadGraph_def filter_map comp_def name_rowToEntity)
    then show "map observations (filter (\<lambda>e. name e = n) (entities (readGraph d')))
        = [?existing @ ?added]"
      unfolding one using obs by (simp add: rowToEntity_def)
  qed
  show ?thesis
    unfolding c2 by (intro conjI c1 c4 same stored rd)
qed

lemma janeRow_decoded: "decodeObservations (row_observations janeRow) = [''likes tea'']"
  by (simp add: janeRow_def decodeObservations_def delim_def splitDelim.simps)

theorem addObservations_merge_witness:
  "find (\<lambda>e. row_name e = ''Jane'') (entities_tbl janeAcmeDb) = Some janeRow \<and>
   wf_db janeAcmeDb \<and>
   decodeObservations (row_observations janeRow) = [''likes tea''] \<and>
   delimFree ''likes tea'' \<and> delimFree ''drinks coffee'' \<and>
   fst (addObservations janeAcmeDb
          [\<lparr>entityName = ''Jane'', contents = [''likes tea'', ''drinks coffee'']\<rparr>]) =
     Inr [\<lparr>out_entityName = ''Jane'', addedObservations = [''drinks coffee'']\<rparr>] \<and>
   map observations (filter (\<lambda>e. name e = ''Jane'')
      (entities (readGraph (snd (addObservations janeAcmeDb
          [\<lparr>entityName = ''Jane'', contents = [''likes tea'', ''drinks coffee'']\<rparr>])))))
     = [ [''likes tea'', ''drinks coffee'']]"
proof -
  have wf: "wf_db janeAcmeDb" by (simp add: janeAcmeDb_def wf_db_def)
  have f: "find (\<lambda>e. row_name e = ''Jane'') (entities_tbl janeAcmeDb) = Some janeRow"
    by (simp add: janeAcmeDb_def janeRow_def)
  have df: "delimFree ''likes tea''" "delimFree ''drinks coffee''"
    by (simp_all add: delimFree_def)
  note t = addObservations_merge [OF f, of "[''likes tea'', ''drinks coffee'']",
      unfolded janeRow_decoded]
  have res: "fst (addObservations janeAcmeDb
          [\<lparr>entityName = ''Jane'', contents = [''likes tea'', ''drinks coffee'']\<rparr>]) =
     Inr [\<lparr>out_entityName = ''Jane'', addedObservations = [''drinks coffee'']\<rparr>]"
    using t [THEN conjunct1] by simp
  have h: "wf_db janeAcmeDb \<and>
      (\<forall>x \<in> set ([''likes tea''] @ [''likes tea'', ''drinks coffee'']). delimFree x) \<and>
      [''likes tea''] @ filter (\<lambda>c. c \<notin> set [''likes tea'']) [''likes tea'', ''drinks coffee'']
        \<noteq> ['''']"
    using wf df by simp
  have rd: "map observations (filter (\<lambda>e. name e = ''Jane'')
      (entities (readGraph (snd (addObservations janeAcmeDb
          [\<lparr>entityName = ''Jane'', contents = [''likes tea'', ''drinks coffee'']\<rparr>])))))
     = [ [''likes tea''] @
          filter (\<lambda>c. c \<notin> set [''likes tea'']) [''likes tea'', ''drinks coffee'']]"
    using t [THEN conjunct2, THEN conjunct2, THEN conjunct2, THEN conjunct2] h by (rule mp)
  have rd': "map observations (filter (\<lambda>e. name e = ''Jane'')
      (entities (readGraph (snd (addObservations janeAcmeDb
          [\<lparr>entityName = ''Jane'', contents = [''likes tea'', ''drinks coffee'']\<rparr>])))))
     = [ [''likes tea'', ''drinks coffee'']]"
    unfolding rd by simp
  show ?thesis
    by (intro conjI f wf janeRow_decoded df res rd')
qed

text \<open>
  Against C6 as stated: adding an observation that holds the delimiter stores two
  observations, and adding the empty string to an entity without observations stores
  nothing although it is reported as added.
\<close>

theorem addObservations_merge_counterexample:
  "map observations (entities (readGraph janeAcmeDb)) = [ [''likes tea''], []] \<and>
   fst (addObservations janeAcmeDb [janePiped, acmeBlank]) =
     Inr [\<lparr>out_entityName = ''Jane'', addedObservations = [''a|||b'']\<rparr>,
          \<lparr>out_entityName = ''Acme'', addedObservations = ['''']\<rparr>] \<and>
   map observations (entities (readGraph (snd (addObservations janeAcmeDb [janePiped, acmeBlank]))))
     = [ [''likes tea'', ''a'', ''b''], []] \<and>
   [''likes tea'', ''a'', ''b''] \<noteq> [''likes tea''] @ [''a|||b''] \<and>
   [] \<noteq> [] @ ['''' :: string]"
  by (simp add: janePiped_def acmeBlank_def addObservationsTo_def janeAcmeDb_def
      decodeObservations_def delim_def splitDelim.simps encodeObservations_def
      updateEntityObservations_def readGraph_def loadGraph_def rowToEntity_def)


subsection \<open>Observations stay duplicate-free\<close>

lemma clean_decode_encode:
  assumes "cleanStrings xs"
  shows "cleanStrings (decodeObservations (encodeObservations xs))"
proof -
  have "\<forall>x \<in> set xs. delimFree x" using assms by (simp add: cleanStrings_def)
  then have "decodeObservations (encodeObservations xs) = (if xs = [''''] then [] else xs)"
    by (rule decode_encode)
  then show ?thesis using assms by (cases "xs = ['''']") (simp_all add: cleanStrings_def)
qed

lemma insertEntity_lexical_clean:
  assumes "cleanDb d" and "cleanStrings (observations e)"
  shows "cleanDb (snd (insertEntity_lexical d e))"
  using assms clean_decode_encode [OF assms(2)]
  by (simp add: insertEntity_lexical_def cleanDb_def)

lemma createEntities_lexical_clean:
  "cleanDb d \<Longrightarrow> \<forall>e \<in> set es. cleanStrings (observations e) \<Longrightarrow>
   cleanDb (snd (createEntities_lexical d es))"
proof (induction es arbitrary: d)
  case Nil
  then show ?case by simp
next
  case (Cons e es)
  obtain r d' where ins: "insertEntity_lexical d e = (r, d')" by (cases "insertEntity_lexical d e")
  have "cleanDb d'" using insertEntity_lexical_clean [of d e] Cons.prems ins by simp
  then have "cleanDb (snd (createEntities_lexical d' es))"
    using Cons.prems by (intro Cons.IH) simp_all
  then show ?case using ins by (cases r) (auto split: prod.splits)
qed

lemma updateEntityObservations_clean:
  assumes "cleanDb d" and "cleanStrings xs"
  shows "cleanDb (updateEntityObservations d (encodeObservations xs) n)"
  unfolding cleanDb_def
proof
  fix r' assume "r' \<in> set (entities_tbl (updateEntityObservations d (encodeObservations xs) n))"
  then obtain e where e: "e \<in> set (entities_tbl d)"
    and r': "r' = (if row_name e = n then e\<lparr>row_observations := encodeObservations xs\<rparr> else e)"
    unfolding updateEntityObservations_def by (force simp: image_iff)
  show "cleanStrings (decodeObservations (row_observations r'))"
  proof (cases "row_name e = n")
    case True
    then show ?thesis using r' clean_decode_encode [OF assms(2)] by simp
  next
    case False
    then show ?thesis using r' e assms(1) by (simp add: cleanDb_def)
  qed
qed

lemma find_SomeD: "find P xs = Some x \<Longrightarrow> x \<in> set xs \<and> P x"
  by (induction xs) (auto split: if_splits)

lemma clean_merge:
  assumes "cleanStrings existing" and "cleanStrings cs"
  shows "cleanStrings (existing @ filter (\<lambda>c. c \<notin> set existing) cs)"
  using assms by (auto simp: cleanStrings_def)

lemma clean_filter: "cleanStrings xs \<Longrightarrow> cleanStrings (filter P xs)"
  by (simp add: cleanStrings_def)

lemma addObservationsTo_clean:
  assumes "cleanDb d" and "cleanStrings (contents ob)"
    and "addObservationsTo d ob = Inr (res, d')"
  shows "cleanDb d'"
proof (cases "find (\<lambda>e. row_name e = entityName ob) (entities_tbl d)")
  case None
  then show ?thesis using assms(3) by (simp add: addObservationsTo_def)
next
  case (Some r)
  let ?existing = "decodeObservations (row_observations r)"
  let ?added = "filter (\<lambda>c. c \<notin> set ?existing) (contents ob)"
  have "r \<in> set (entities_tbl d)" using find_SomeD [OF Some] by simp
  then have ex: "cleanStrings ?existing" using assms(1) by (simp add: cleanDb_def)
  have merged: "cleanStrings (?existing @ ?added)"
    using ex assms(2) by (rule clean_merge)
  have "d' = (if length ?added > 0
              then updateEntityObservations d (encodeObservations (?existing @ ?added)) (entityName ob)
              else d)"
    using assms(3) Some by (simp add: addObservationsTo_def Let_def split: if_splits)
  then show ?thesis
    using updateEntityObservations_clean [OF assms(1) merged, of "entityName ob"] assms(1)
    by (cases "length ?added > 0") simp_all
qed

lemma addObservations_lexical_clean:
  "cleanDb d \<Longrightarrow> \<forall>ob \<in> set obs. cleanStrings (contents ob) \<Longrightarrow>
   cleanDb (snd (addObservations_lexical d obs))"
proof (induction obs arbitrary: d)
  case Nil
  then show ?case by simp
next
  case (Cons ob obs)
  show ?case
  proof (cases "addObservationsTo d ob")
    case (Inl err)
    then show ?thesis using Cons.prems(1) by simp
  next
    case (Inr p)
    obtain res d' where p: "p = (res, d')" by (cases p)
    have step: "addObservationsTo d ob = Inr (res, d')" using Inr p by simp
    have "cleanDb d'"
      using addObservationsTo_clean [OF Cons.prems(1) _ step] Cons.prems(2) by simp
    then have "cleanDb (snd (addObservations_lexical d' obs))"
      using Cons.prems(2) by (intro Cons.IH) simp_all
    then show ?thesis unfolding addObservations_lexical_step(1) [OF step] .
  qed
qed

lemma addObservations_clean:
  "cleanDb d \<Longrightarrow> \<forall>ob \<in> set obs. cleanStrings (contents ob) \<Longrightarrow>
   cleanDb (snd (addObservations d obs))"
proof (induction obs arbitrary: d)
  case Nil
  then show ?case by simp
next
  case (Cons ob obs)
  show ?case
  proof (cases "addObservationsTo d ob")
    case (Inl err)
    have "cleanDb (snd (addObservations d obs))"
      using Cons.prems by (intro Cons.IH) simp_all
    then show ?thesis using Inl by simp
  next
    case (Inr p)
    obtain res d' where p: "p = (res, d')" by (cases p)
    have step: "addObservationsTo d ob = Inr (res, d')" using Inr p by simp
    have "cleanDb d'"
      using addObservationsTo_clean [OF Cons.prems(1) _ step] Cons.prems(2) by simp
    then have "cleanDb (snd (addObservations d' obs))"
      using Cons.prems(2) by (intro Cons.IH) simp_all
    then show ?thesis unfolding addObservations_step(1) [OF step] .
  qed
qed

lemma deleteObservationsFrom_clean:
  assumes "cleanDb d"
  shows "cleanDb (deleteObservationsFrom d del)"
proof (cases "find (\<lambda>e. row_name e = del_entityName del) (entities_tbl d)")
  case None
  then show ?thesis using assms by (simp add: deleteObservationsFrom_def)
next
  case (Some r)
  have "r \<in> set (entities_tbl d)" using find_SomeD [OF Some] by simp
  then have "cleanStrings (decodeObservations (row_observations r))"
    using assms by (simp add: cleanDb_def)
  then have "cleanStrings (filter (\<lambda>ob. ob \<notin> set (del_observations del))
                (decodeObservations (row_observations r)))"
    by (rule clean_filter)
  then show ?thesis
    using Some updateEntityObservations_clean [OF assms]
    by (simp add: deleteObservationsFrom_def Let_def)
qed

lemma deleteObservations_clean: "cleanDb d \<Longrightarrow> cleanDb (deleteObservations d dels)"
  unfolding deleteObservations_def
  by (induction dels arbitrary: d) (simp_all add: deleteObservationsFrom_clean)

lemma applyOperation_clean:
  "cleanDb d \<Longrightarrow> cleanOperation op \<Longrightarrow> cleanDb (applyOperation d op)"
  by (cases op)
     (simp_all add: createEntities_snd createEntities_lexical_clean addObservations_clean
        addObservations_lexical_clean
        deleteObservations_clean del: addObservations.simps addObservations_lexical.simps
        createEntities_lexical.simps)

text \<open>
  C3 (as the code has it). Starting from a store whose decoded observation lists are
  duplicate-free and free of the character \<open>|\<close> (the empty store is one), after any
  sequence of \<open>createEntities\<close>, \<open>addObservations\<close> (of either manager) and
  \<open>deleteObservations\<close> calls whose supplied observation lists are themselves
  duplicate-free and free of \<open>|\<close>, every stored entity's observation sequence has
  no duplicates. A call that raises (\<open>createEntities\<close> of the vector-enabled
  manager, \<open>addObservations\<close> on a missing entity) keeps the invariant too.
  Duplicates inside one supplied list are not rejected.
\<close>

theorem observations_stay_distinct:
  assumes "cleanDb d" and "\<forall>op \<in> set ops. cleanOperation op"
  shows "cleanDb (runOperations d ops) \<and>
         (\<forall>e \<in> set (entities (readGraph (runOperations d ops))). distinct (observations e))"
proof -
  have run: "cleanDb (runOperations d ops)"
    using assms unfolding runOperations_def
  proof (induction ops arbitrary: d)
    case Nil
    then show ?case by simp
  next
    case (Cons op ops)
    have "cleanDb (applyOperation d op)"
      using Cons.prems by (intro applyOperation_clean) simp_all
    then show ?case using Cons.prems(2) Cons.IH by simp
  qed
  then have "\<forall>e \<in> set (entities (readGraph (runOperations d ops))). distinct (observations e)"
    by (auto simp: cleanDb_def cleanStrings_def readGraph_def loadGraph_def rowToEntity_def)
  then show ?thesis using run by simp
qed

theorem observations_stay_distinct_witness:
  "cleanDb (emptyDb :: unit db) \<and>
   cleanOperation (CreateEntitiesLexical [jane, acme]) \<and> cleanOperation (AddObservationsLexical [janeTea]) \<and>
   cleanOperation (DeleteObservations [janeForget]) \<and>
   cleanDb (runOperations (emptyDb :: unit db) janeStory) \<and>
   map observations (entities (readGraph (runOperations (emptyDb :: unit db) janeStory)))
     = [ [''drinks coffee''], []]"
proof -
  have c0: "cleanDb (emptyDb :: unit db)" by (simp add: cleanDb_def emptyDb_def)
  have c1: "cleanOperation (CreateEntitiesLexical [jane, acme])"
    by (simp add: jane_def acme_def cleanStrings_def delimFree_def)
  have c2: "cleanOperation (AddObservationsLexical [janeTea])"
    by (simp add: janeTea_def cleanStrings_def delimFree_def)
  have c3: "cleanOperation (DeleteObservations [janeForget])" by simp
  have ops: "\<forall>op \<in> set janeStory. cleanOperation op"
    using c1 c2 c3 by (simp add: janeStory_def)
  have rd: "map observations (entities (readGraph (runOperations (emptyDb :: unit db) janeStory)))
     = [ [''drinks coffee''], []]"
    by (simp add: janeStory_def runOperations_def emptyDb_def jane_def acme_def janeTea_def
        janeForget_def insertEntity_lexical_def addObservationsTo_def deleteObservations_def
        deleteObservationsFrom_def updateEntityObservations_def encodeObservations_def
        decodeObservations_def delim_def splitDelim.simps readGraph_def loadGraph_def
        rowToEntity_def)
  show ?thesis
    using observations_stay_distinct [OF c0 ops] c0 c1 c2 c3 rd by simp
qed

text \<open>
  Against C3 as stated, on the lexical manager: a duplicate inside the list given to
  \<open>createEntities\<close>, a
  duplicate inside the contents given to \<open>addObservations\<close>, and an added
  observation that holds the delimiter each leave a stored sequence with duplicates.
\<close>

theorem observations_duplicates_counterexample:
  "map observations
     (entities (readGraph (runOperations (emptyDb :: unit db) [CreateEntitiesLexical [twice]])))
     = [ [''a'', ''a'']] \<and>
   map observations
     (entities (readGraph (runOperations (emptyDb :: unit db)
        [CreateEntitiesLexical [acme], AddObservationsLexical [acmeTwice]])))
     = [ [''b'', ''b'']] \<and>
   map observations
     (entities (readGraph (runOperations (emptyDb :: unit db)
        [CreateEntitiesLexical [pair], AddObservationsLexical [pairPiped]])))
     = [ [''a'', ''b'', ''a'', ''b'']] \<and>
   \<not> distinct [''a'', ''a''] \<and> \<not> distinct [''b'', ''b''] \<and> \<not> distinct [''a'', ''b'', ''a'', ''b'']"
  by (simp add: runOperations_def emptyDb_def twice_def acme_def acmeTwice_def pair_def
      pairPiped_def insertEntity_lexical_def addObservationsTo_def updateEntityObservations_def
      encodeObservations_def decodeObservations_def delim_def splitDelim.simps readGraph_def
      loadGraph_def rowToEntity_def)


subsection \<open>Lexical search\<close>





























lemma janeAcmeDb_read:
  "readGraph janeAcmeDb = \<lparr>entities = [jane, acme], relations = [worksAt]\<rparr>"
  by (simp add: readGraph_def loadGraph_def janeAcmeDb_def rowToEntity_def rowToRelation_def
      jane_def acme_def worksAt_def decodeObservations_def delim_def splitDelim.simps)





end
